theory Spec2Isabelle
  imports Main "HOL-Library.AList"
begin

section \<open>Python strings\<close>

text \<open>
  Strings are modelled as lists of 8-bit characters; the model covers ASCII text.
  \<open>str.lower\<close> maps A-Z to a-z, and the whitespace class shared by
  \<open>str.strip\<close>, \<open>str.split\<close> and the regular expression \<open>\s\<close> is
  the ASCII part of Python's: TAB, LF, VT, FF, CR, FS, GS, RS, US and space.
\<close>

definition is_space :: "char \<Rightarrow> bool" where
  "is_space c = (c \<in> set [CHR 0x09, CHR 0x0A, CHR 0x0B, CHR 0x0C, CHR 0x0D,
                           CHR 0x1C, CHR 0x1D, CHR 0x1E, CHR 0x1F, CHR 0x20])"

definition lower_char :: "char \<Rightarrow> char" where
  "lower_char c =
     (case map_of (zip ''ABCDEFGHIJKLMNOPQRSTUVWXYZ'' ''abcdefghijklmnopqrstuvwxyz'') c of
        None \<Rightarrow> c | Some d \<Rightarrow> d)"

definition lower :: "string \<Rightarrow> string" where
  "lower s = map lower_char s"

definition strip :: "string \<Rightarrow> string" where
  "strip s = rev (dropWhile is_space (rev (dropWhile is_space s)))"

text \<open>\<open>s.split()\<close>: the maximal runs of non-whitespace characters, in order.
  The accumulator \<open>w\<close> holds the current word.\<close>

fun split_acc :: "string \<Rightarrow> string \<Rightarrow> string list" where
  "split_acc w [] = (if w = [] then [] else [w])"
| "split_acc w (c # cs) =
     (if is_space c then (if w = [] then split_acc [] cs else w # split_acc [] cs)
      else split_acc (w @ [c]) cs)"

definition split :: "string \<Rightarrow> string list" where
  "split s = split_acc [] s"

text \<open>\<open>s.replace('_', ' ')\<close>\<close>

definition replace_underscore :: "string \<Rightarrow> string" where
  "replace_underscore s = map (\<lambda>c. if c = CHR ''_'' then CHR '' '' else c) s"

fun starts_with :: "string \<Rightarrow> string \<Rightarrow> bool" where
  "starts_with [] s = True"
| "starts_with (k # ks) [] = False"
| "starts_with (k # ks) (c # cs) = (k = c \<and> starts_with ks cs)"

text \<open>\<open>k in s\<close> on strings: \<open>k\<close> occurs as a contiguous substring of \<open>s\<close>.\<close>

fun contains :: "string \<Rightarrow> string \<Rightarrow> bool" where
  "contains [] k = (k = [])"
| "contains (c # cs) k = (starts_with k (c # cs) \<or> contains cs k)"

section \<open>Regular expressions: \<open>re.search\<close> with \<open>re.IGNORECASE\<close>\<close>

text \<open>
  The fragment of Python's regular expressions that \<open>query_patterns\<close> uses:
  literal characters, \<open>.\<close> (any character but a newline), \<open>\s\<close>, concatenation,
  alternation, \<open>?\<close>, \<open>+\<close> and numbered capturing groups. The matcher is the
  backtracking one: \<open>rmatch r (s, caps)\<close> lists every way \<open>r\<close> can match a prefix
  of \<open>s\<close>, as the remaining input and the captures, in the order in which the
  backtracking search tries them (left alternative first, greedy \<open>?\<close> and
  \<open>+\<close>). The first element is the match Python reports.
\<close>

datatype regex =
    Eps
  | Lit char
  | Dot
  | Space
  | Seq regex regex
  | Alt regex regex
  | Opt regex
  | Plus regex
  | Group nat regex

type_synonym captures = "(nat \<times> string) list"

function rmatch :: "regex \<Rightarrow> string \<times> captures \<Rightarrow> (string \<times> captures) list" where
  "rmatch Eps st = [st]"
| "rmatch (Lit c) st =
     (case fst st of [] \<Rightarrow> []
      | x # xs \<Rightarrow> if lower_char x = lower_char c then [(xs, snd st)] else [])"
| "rmatch Dot st =
     (case fst st of [] \<Rightarrow> []
      | x # xs \<Rightarrow> if x \<noteq> CHR 0x0A then [(xs, snd st)] else [])"
| "rmatch Space st =
     (case fst st of [] \<Rightarrow> []
      | x # xs \<Rightarrow> if is_space x then [(xs, snd st)] else [])"
| "rmatch (Seq a b) st = concat (map (rmatch b) (rmatch a st))"
| "rmatch (Alt a b) st = rmatch a st @ rmatch b st"
| "rmatch (Opt a) st = rmatch a st @ [st]"
| "rmatch (Plus a) st =
     concat (map (\<lambda>st'. (if length (fst st') < length (fst st)
                          then rmatch (Plus a) st' else []) @ [st'])
                 (rmatch a st))"
| "rmatch (Group n a) st =
     map (\<lambda>st'. (fst st',
                 AList.update n (take (length (fst st) - length (fst st')) (fst st)) (snd st')))
         (rmatch a st)"
  by pat_completeness auto
termination
  by (relation "measures [\<lambda>(r, st). size r, \<lambda>(r, st). length (fst st)]") auto

text \<open>A match object: the captured groups of the first match. \<open>re.search\<close> tries
  the start positions from left to right.\<close>

fun re_search :: "regex \<Rightarrow> string \<Rightarrow> captures option" where
  "re_search r [] = (case rmatch r ([], []) of [] \<Rightarrow> None | m # _ \<Rightarrow> Some (snd m))"
| "re_search r (c # cs) =
     (case rmatch r (c # cs, []) of [] \<Rightarrow> re_search r cs | m # _ \<Rightarrow> Some (snd m))"

text \<open>\<open>len(match.groups())\<close>: the number of groups of the pattern.\<close>

fun ngroups :: "regex \<Rightarrow> nat" where
  "ngroups (Seq a b) = ngroups a + ngroups b"
| "ngroups (Alt a b) = ngroups a + ngroups b"
| "ngroups (Opt a) = ngroups a"
| "ngroups (Plus a) = ngroups a"
| "ngroups (Group n a) = Suc (ngroups a)"
| "ngroups r = 0"

subsection \<open>Pattern syntax helpers\<close>

fun seqs :: "regex list \<Rightarrow> regex" where
  "seqs [] = Eps"
| "seqs [r] = r"
| "seqs (r # rs) = Seq r (seqs rs)"

definition lit :: "string \<Rightarrow> regex" where
  "lit s = seqs (map Lit s)"

text \<open>\<open>\s+\<close> and the capturing group \<open>(.+)\<close>\<close>

definition ws :: regex where
  "ws = Plus Space"

definition any_group :: "nat \<Rightarrow> regex" where
  "any_group n = Group n (Plus Dot)"

section \<open>The intent classifier\<close>

text \<open>\<open>self.query_patterns\<close>: the five categories in the order the dictionary
  literal declares them, each with its patterns in order. Groups are numbered by
  their opening parenthesis, as Python numbers them. The first comparison pattern,
  \<open>(difference|compare)\s+between\s+(.+)\s+and\s+(.+)\<close>, has a name of its own.\<close>

definition pat_between :: regex where
  "pat_between =
     seqs [Group 1 (Alt (lit ''difference'') (lit ''compare'')), ws, lit ''between'', ws,
           any_group 2, ws, lit ''and'', ws, any_group 3]"

definition query_patterns :: "(string \<times> regex list) list" where
  "query_patterns =
   [(''definition'',
       [seqs [lit ''what is '', Opt (Group 1 (Alt (lit ''a'') (lit ''an''))), ws, any_group 2],
        seqs [lit ''define'', ws, any_group 1],
        seqs [lit ''explain'', ws, any_group 1],
        seqs [lit ''describe'', ws, any_group 1]]),
    (''comparison'',
       [pat_between,
        seqs [any_group 1, ws, lit ''vs'', ws, any_group 2],
        seqs [lit ''how'', ws, lit ''does'', ws, any_group 1, ws, lit ''differ'', ws,
              lit ''from'', ws, any_group 2]]),
    (''implementation'',
       [seqs [lit ''how'', ws, lit ''to'', ws, lit ''implement'', ws, any_group 1],
        seqs [lit ''implementation'', ws, lit ''of'', ws, any_group 1],
        seqs [lit ''code'', ws, lit ''for'', ws, any_group 1],
        seqs [lit ''program'', ws, lit ''for'', ws, any_group 1]]),
    (''complexity'',
       [seqs [Group 1 (Alt (lit ''time'') (lit ''space'')), ws, lit ''complexity'', ws,
              lit ''of'', ws, any_group 2],
        seqs [lit ''how'', ws, Group 1 (Alt (lit ''efficient'') (lit ''fast'')), ws,
              lit ''is'', ws, any_group 2],
        seqs [lit ''performance'', ws, lit ''of'', ws, any_group 1]]),
    (''application'',
       [seqs [Group 1 (Alt (lit ''use'') (lit ''application'')), ws, lit ''of'', ws, any_group 2],
        seqs [lit ''when'', ws, lit ''to'', ws, lit ''use'', ws, any_group 1],
        seqs [lit ''where'', ws, lit ''is'', ws, any_group 1, ws, lit ''used'']])]"

datatype py_error = AttributeError | IndexError | KeyError

text \<open>\<open>match.group(k).strip()\<close>: \<open>group\<close> raises IndexError for a group the
  pattern does not have and returns \<open>None\<close> for a group that took no part in the
  match, on which \<open>strip\<close> raises AttributeError.\<close>

definition group_strip :: "regex \<Rightarrow> captures \<Rightarrow> nat \<Rightarrow> py_error + string" where
  "group_strip p m k =
     (if ngroups p < k then Inl IndexError
      else case map_of m k of None \<Rightarrow> Inl AttributeError | Some t \<Rightarrow> Inr (strip t))"

text \<open>The inner loop of \<open>_identify_query_type\<close> over the patterns of one
  category: \<open>None\<close> when the loop ends without returning.\<close>

fun try_patterns ::
  "string \<Rightarrow> string \<Rightarrow> regex list \<Rightarrow> (py_error + string \<times> string list) option" where
  "try_patterns query_type query [] = None"
| "try_patterns query_type query (pattern # patterns) =
     (case re_search pattern query of
        None \<Rightarrow> try_patterns query_type query patterns
      | Some m \<Rightarrow>
          if query_type = ''comparison'' then
            (if 2 \<le> ngroups pattern then
               (case group_strip pattern m 2 of
                  Inl e \<Rightarrow> Some (Inl e)
                | Inr concept1 \<Rightarrow>
                    if 3 \<le> ngroups pattern then
                      (case group_strip pattern m 3 of
                         Inl e \<Rightarrow> Some (Inl e)
                       | Inr concept2 \<Rightarrow> Some (Inr (query_type, [concept1, concept2])))
                    else Some (Inr (query_type, [concept1, []])))
             else try_patterns query_type query patterns)
          else
            (if 1 \<le> ngroups pattern then
               (case group_strip pattern m (ngroups pattern) of
                  Inl e \<Rightarrow> Some (Inl e)
                | Inr concept \<Rightarrow> Some (Inr (query_type, [concept])))
             else try_patterns query_type query patterns))"

fun try_categories ::
  "string \<Rightarrow> (string \<times> regex list) list \<Rightarrow> py_error + string \<times> string list" where
  "try_categories query [] = Inr (''general'', [])"
| "try_categories query ((query_type, patterns) # rest) =
     (case try_patterns query_type query patterns of
        Some r \<Rightarrow> r
      | None \<Rightarrow> try_categories query rest)"

definition identify_query_type :: "string \<Rightarrow> py_error + string \<times> string list" where
  "identify_query_type query = try_categories query query_patterns"

section \<open>The curriculum document and the concept index\<close>

text \<open>The curriculum is parsed JSON: every field of an object may be missing, which
  \<open>dict.get(key, default)\<close> replaces by the default.\<close>

record resource =
  r_title :: "string option"
  r_url :: "string option"
  r_source :: "string option"

record topic_entry =
  t_name :: "string option"
  t_display_name :: "string option"
  t_subtopics :: "string list option"
  t_resources :: "resource list option"

record curriculum =
  topics :: "topic_entry list option"

definition get_default :: "'a \<Rightarrow> 'a option \<Rightarrow> 'a" where
  "get_default d v = (case v of None \<Rightarrow> d | Some x \<Rightarrow> x)"

text \<open>An index entry is a dictionary with a \<open>type\<close> field: a topic entry with
  \<open>display_name\<close>, \<open>subtopics\<close> and \<open>resources\<close>, or a subtopic entry with
  \<open>parent_topic\<close>, \<open>display_name\<close> and \<open>resources\<close>.\<close>

datatype entry =
    TopicEntry string "string list" "resource list"
  | SubtopicEntry string string "resource list"

text \<open>\<open>info.get("subtopics", [])\<close>, \<open>info.get("resources", [])\<close>,
  \<open>info.get("display_name")\<close>\<close>

fun entry_subtopics :: "entry \<Rightarrow> string list" where
  "entry_subtopics (TopicEntry d ss rs) = ss"
| "entry_subtopics (SubtopicEntry p d rs) = []"

fun entry_resources :: "entry \<Rightarrow> resource list" where
  "entry_resources (TopicEntry d ss rs) = rs"
| "entry_resources (SubtopicEntry p d rs) = rs"

fun entry_display_name :: "entry \<Rightarrow> string" where
  "entry_display_name (TopicEntry d ss rs) = d"
| "entry_display_name (SubtopicEntry p d rs) = d"

text \<open>
  The index is a Python dictionary from key to a reference to an entry object. The
  dictionary is an association list in insertion order (assigning to a key that is
  present replaces its value in place, as \<open>AList.update\<close> does); the entry objects
  live in a store, and a reference is a position in it.
\<close>

record concept_index =
  ci_keys :: "(string \<times> nat) list"
  ci_objs :: "entry list"

definition empty_index :: concept_index where
  "empty_index = \<lparr>ci_keys = [], ci_objs = []\<rparr>"

text \<open>Evaluating a dictionary literal creates a new object.\<close>

definition new_obj :: "concept_index \<Rightarrow> entry \<Rightarrow> nat \<times> concept_index" where
  "new_obj ci e = (length (ci_objs ci), ci\<lparr>ci_objs := ci_objs ci @ [e]\<rparr>)"

text \<open>\<open>concept_index[k] = ref\<close>\<close>

definition set_key :: "string \<Rightarrow> nat \<Rightarrow> concept_index \<Rightarrow> concept_index" where
  "set_key k a ci = ci\<lparr>ci_keys := AList.update k a (ci_keys ci)\<rparr>"

text \<open>\<open>concept_index[k]\<close> read as a reference; a missing key raises KeyError.\<close>

definition ref_of :: "concept_index \<Rightarrow> string \<Rightarrow> py_error + nat" where
  "ref_of ci k = (case map_of (ci_keys ci) k of None \<Rightarrow> Inl KeyError | Some a \<Rightarrow> Inr a)"

text \<open>\<open>k in concept_index\<close> followed by \<open>concept_index[k]\<close>: the entry a key
  refers to. (A reference outside the store cannot exist in Python; the model reads it
  as an absent key.)\<close>

definition lookup_concept :: "concept_index \<Rightarrow> string \<Rightarrow> entry option" where
  "lookup_concept ci k =
     (case map_of (ci_keys ci) k of
        None \<Rightarrow> None
      | Some a \<Rightarrow> if a < length (ci_objs ci) then Some (ci_objs ci ! a) else None)"

text \<open>\<open>concept_index[key] = concept_index[topic_name]\<close>\<close>

definition alias_key :: "string \<Rightarrow> string \<Rightarrow> concept_index \<Rightarrow> py_error + concept_index" where
  "alias_key key topic_name ci =
     (case ref_of ci topic_name of Inl e \<Rightarrow> Inl e | Inr a \<Rightarrow> Inr (set_key key a ci))"

text \<open>The loop over the subtopics of one topic.\<close>

fun add_subtopics ::
  "string \<Rightarrow> resource list \<Rightarrow> concept_index \<Rightarrow> string list \<Rightarrow> concept_index" where
  "add_subtopics topic_name rs ci [] = ci"
| "add_subtopics topic_name rs ci (subtopic # rest) =
     (let (a, ci1) = new_obj ci
            (SubtopicEntry topic_name subtopic
               [r \<leftarrow> rs. contains (lower (get_default [] (r_title r))) (lower subtopic)])
      in add_subtopics topic_name rs (set_key (lower subtopic) a ci1) rest)"

text \<open>One iteration of the loop over the topics.\<close>

definition add_topic :: "concept_index \<Rightarrow> topic_entry \<Rightarrow> py_error + concept_index" where
  "add_topic ci topic_entry =
     (let topic_name = get_default [] (t_name topic_entry);
          (a, ci1) = new_obj ci
            (TopicEntry (get_default topic_name (t_display_name topic_entry))
                        (get_default [] (t_subtopics topic_entry))
                        (get_default [] (t_resources topic_entry)));
          ci2 = set_key topic_name a ci1;
          alt_name = replace_underscore topic_name
      in case (if alt_name \<noteq> topic_name then alias_key alt_name topic_name ci2 else Inr ci2) of
           Inl e \<Rightarrow> Inl e
         | Inr ci3 \<Rightarrow>
             (let display_name = lower (get_default [] (t_display_name topic_entry))
              in case (if display_name \<noteq> [] \<and> display_name \<noteq> topic_name
                          \<and> display_name \<noteq> alt_name
                       then alias_key display_name topic_name ci3 else Inr ci3) of
                   Inl e \<Rightarrow> Inl e
                 | Inr ci4 \<Rightarrow>
                     Inr (add_subtopics topic_name (get_default [] (t_resources topic_entry))
                            ci4 (get_default [] (t_subtopics topic_entry)))))"

fun add_topics :: "concept_index \<Rightarrow> topic_entry list \<Rightarrow> py_error + concept_index" where
  "add_topics ci [] = Inr ci"
| "add_topics ci (t # ts) =
     (case add_topic ci t of Inl e \<Rightarrow> Inl e | Inr ci' \<Rightarrow> add_topics ci' ts)"

definition build_concept_index :: "curriculum \<Rightarrow> py_error + concept_index" where
  "build_concept_index cur = add_topics empty_index (get_default [] (topics cur))"

section \<open>The fallback concept extractor\<close>

text \<open>Pass 1, the loop over the keys that appends every key occurring in the query.\<close>

fun exact_pass :: "string \<Rightarrow> string list \<Rightarrow> string list \<Rightarrow> string list" where
  "exact_pass query extracted [] = extracted"
| "exact_pass query extracted (concept_name # rest) =
     (if contains query concept_name
      then exact_pass query (extracted @ [concept_name]) rest
      else exact_pass query extracted rest)"

text \<open>Pass 2, the inner loop over the words of one key: \<open>True\<close> when it appends the
  key and breaks.\<close>

fun word_loop :: "string \<Rightarrow> string list \<Rightarrow> bool" where
  "word_loop query [] = False"
| "word_loop query (word # rest) =
     (if 3 < length word \<and> word \<in> set (split query) then True else word_loop query rest)"

fun partial_pass :: "string \<Rightarrow> string list \<Rightarrow> string list \<Rightarrow> string list" where
  "partial_pass query extracted [] = extracted"
| "partial_pass query extracted (concept_name # rest) =
     (if word_loop query (split concept_name)
      then partial_pass query (extracted @ [concept_name]) rest
      else partial_pass query extracted rest)"

definition extract_concepts_from_query :: "concept_index \<Rightarrow> string \<Rightarrow> string list" where
  "extract_concepts_from_query ci query =
     (let extracted = exact_pass query [] (map fst (ci_keys ci))
      in if extracted = [] then partial_pass query extracted (map fst (ci_keys ci))
         else extracted)"

section \<open>The relation resolver and the resource resolver\<close>

fun related_loop :: "concept_index \<Rightarrow> string list \<Rightarrow> string list \<Rightarrow> string list" where
  "related_loop ci related [] = related"
| "related_loop ci related (concept # rest) =
     (case lookup_concept ci concept of
        None \<Rightarrow> related_loop ci related rest
      | Some (TopicEntry d ss rs) \<Rightarrow> related_loop ci (related @ ss) rest
      | Some (SubtopicEntry parent_topic d rs) \<Rightarrow>
          (case lookup_concept ci parent_topic of
             None \<Rightarrow> related_loop ci related rest
           | Some parent_info \<Rightarrow>
               related_loop ci (related @ entry_subtopics parent_info) rest))"

definition find_related_concepts :: "concept_index \<Rightarrow> string list \<Rightarrow> string list" where
  "find_related_concepts ci concepts =
     take 5 [c \<leftarrow> related_loop ci [] concepts. c \<notin> set concepts]"

text \<open>A resource as the resolver returns it: the three fields with their defaults
  and the concept it was reached from.\<close>

record tagged_resource =
  title :: string
  url :: string
  source :: string
  concept :: string

definition tag_resource :: "string \<Rightarrow> resource \<Rightarrow> tagged_resource" where
  "tag_resource c r =
     \<lparr>title = get_default [] (r_title r), url = get_default [] (r_url r),
      source = get_default [] (r_source r), concept = c\<rparr>"

fun gather_resources ::
  "concept_index \<Rightarrow> tagged_resource list \<Rightarrow> string list \<Rightarrow> tagged_resource list" where
  "gather_resources ci rs [] = rs"
| "gather_resources ci rs (c # rest) =
     (case lookup_concept ci c of
        None \<Rightarrow> gather_resources ci rs rest
      | Some concept_info \<Rightarrow>
          gather_resources ci (rs @ map (tag_resource c) (entry_resources concept_info)) rest)"

text \<open>The loop that removes duplicates by URL, with its two accumulators
  \<open>unique_resources\<close> and \<open>seen_urls\<close>.\<close>

fun unique_loop ::
  "tagged_resource list \<Rightarrow> string set \<Rightarrow> tagged_resource list \<Rightarrow> tagged_resource list" where
  "unique_loop unique_resources seen_urls [] = unique_resources"
| "unique_loop unique_resources seen_urls (r # rest) =
     (if url r \<noteq> [] \<and> url r \<notin> seen_urls
      then unique_loop (unique_resources @ [r]) (insert (url r) seen_urls) rest
      else unique_loop unique_resources seen_urls rest)"

definition get_relevant_resources ::
  "concept_index \<Rightarrow> string list \<Rightarrow> tagged_resource list" where
  "get_relevant_resources ci concepts =
     take 10 (unique_loop [] {} (gather_resources ci [] concepts))"

section \<open>Query analysis\<close>

record analysis =
  original_query :: string
  query_type :: string
  extracted_concepts :: "string list"
  related_concepts :: "string list"
  resources :: "tagged_resource list"

definition analyze_query :: "concept_index \<Rightarrow> string \<Rightarrow> py_error + analysis" where
  "analyze_query ci query =
     (let clean_query = strip (lower query)
      in case identify_query_type clean_query of
           Inl e \<Rightarrow> Inl e
         | Inr (qt, found) \<Rightarrow>
             (let extracted = (if found = [] then extract_concepts_from_query ci clean_query
                               else found)
              in Inr \<lparr>original_query = query, query_type = qt,
                      extracted_concepts = extracted,
                      related_concepts = find_related_concepts ci extracted,
                      resources = get_relevant_resources ci extracted\<rparr>))"

section \<open>Knowledge gaps\<close>

text \<open>\<open>xs.index(x)\<close>: the first position of \<open>x\<close>; \<open>None\<close> is the ValueError
  that the caller catches.\<close>

fun py_index :: "'a list \<Rightarrow> 'a \<Rightarrow> nat option" where
  "py_index [] x = None"
| "py_index (y # ys) x = (if y = x then Some 0 else map_option Suc (py_index ys x))"

text \<open>The fixed table of advanced concepts, an if/elif chain on the parent topic.\<close>

definition advanced_concepts :: "string \<Rightarrow> string list" where
  "advanced_concepts parent_topic =
     (if parent_topic = ''arrays''
        then [''array searching'', ''array sorting'', ''multidimensional arrays'']
      else if parent_topic = ''linked_lists''
        then [''doubly linked list'', ''circular linked list'']
      else if parent_topic = ''stacks'' \<or> parent_topic = ''queues''
        then [''stack applications'', ''queue applications'']
      else if parent_topic = ''trees'' then [''binary search tree'', ''balanced tree'']
      else if parent_topic = ''graphs'' then [''shortest path'', ''minimum spanning tree'']
      else if parent_topic = ''sorting_algorithms''
        then [''merge sort'', ''quick sort'', ''heap sort'']
      else if parent_topic = ''searching_algorithms'' then [''binary search'', ''hashing'']
      else if parent_topic = ''dynamic_programming'' then [''memoization'', ''tabulation'']
      else [])"

text \<open>The prerequisites one subtopic entry contributes: the \<open>try\<close> block with its
  loop \<open>for i in range(idx)\<close>.\<close>

definition prerequisites_of :: "concept_index \<Rightarrow> string \<Rightarrow> string \<Rightarrow> string list" where
  "prerequisites_of ci parent_topic display_name =
     (case lookup_concept ci parent_topic of
        None \<Rightarrow> []
      | Some parent_info \<Rightarrow>
          (let subtopics = entry_subtopics parent_info
           in case py_index subtopics display_name of
                None \<Rightarrow> []
              | Some idx \<Rightarrow> map (\<lambda>i. subtopics ! i) [0..<idx]))"

text \<open>The loop over the extracted concepts, with the accumulators
  \<open>knowledge_gaps\<close> and \<open>prerequisite_concepts\<close>.\<close>

fun gap_loop ::
  "concept_index \<Rightarrow> string list \<times> string list \<Rightarrow> string list \<Rightarrow> string list \<times> string list"
  where
  "gap_loop ci acc [] = acc"
| "gap_loop ci acc (c # rest) =
     (case lookup_concept ci c of
        None \<Rightarrow> gap_loop ci acc rest
      | Some (TopicEntry d ss rs) \<Rightarrow> gap_loop ci acc rest
      | Some (SubtopicEntry parent_topic d rs) \<Rightarrow>
          gap_loop ci (fst acc @ advanced_concepts parent_topic,
                       snd acc @ prerequisites_of ci parent_topic d) rest)"

text \<open>\<open>list(set(xs) - set(ys))\<close>. Python leaves the order of the resulting list
  open; the model lists the elements in the order of their first occurrence in
  \<open>xs\<close>, and the theorems below speak of the set of its elements only.\<close>

definition set_minus_list :: "string list \<Rightarrow> string list \<Rightarrow> string list" where
  "set_minus_list xs ys = remdups [x \<leftarrow> xs. x \<notin> set ys]"

record gap_result =
  query_analysis :: analysis
  prerequisite_concepts :: "string list"
  knowledge_gaps :: "string list"
  prerequisite_resources :: "tagged_resource list"
  gap_resources :: "tagged_resource list"

definition identify_knowledge_gaps :: "concept_index \<Rightarrow> string \<Rightarrow> py_error + gap_result" where
  "identify_knowledge_gaps ci query =
     (case analyze_query ci query of
        Inl e \<Rightarrow> Inl e
      | Inr an \<Rightarrow>
          (let (gaps0, prereq0) = gap_loop ci ([], []) (extracted_concepts an);
               prereq = set_minus_list prereq0 (extracted_concepts an);
               gaps = set_minus_list (set_minus_list gaps0 (extracted_concepts an)) prereq
           in Inr \<lparr>query_analysis = an, prerequisite_concepts = prereq,
                   knowledge_gaps = gaps,
                   prerequisite_resources = get_relevant_resources ci prereq,
                   gap_resources = get_relevant_resources ci gaps\<rparr>))"

text \<open>The public operations on a mapper constructed from a curriculum document:
  \<open>QueryConceptMapper\<close> builds the index, then answers the query.\<close>

definition mapper_analyze_query :: "curriculum \<Rightarrow> string \<Rightarrow> py_error + analysis" where
  "mapper_analyze_query cur query =
     (case build_concept_index cur of Inl e \<Rightarrow> Inl e | Inr ci \<Rightarrow> analyze_query ci query)"

definition mapper_identify_knowledge_gaps ::
  "curriculum \<Rightarrow> string \<Rightarrow> py_error + gap_result" where
  "mapper_identify_knowledge_gaps cur query =
     (case build_concept_index cur of
        Inl e \<Rightarrow> Inl e
      | Inr ci \<Rightarrow> identify_knowledge_gaps ci query)"

section \<open>Example curricula\<close>

definition trees_curriculum :: curriculum where
  "trees_curriculum =
     \<lparr>topics = Some [\<lparr>t_name = Some ''trees'', t_display_name = Some ''Trees'',
                       t_subtopics = Some [''binary search tree''],
                       t_resources = Some []\<rparr>]\<rparr>"

section \<open>The classifier as the specification words it\<close>

text \<open>The groups that take part in every match of a pattern.\<close>

fun dgroups :: "regex \<Rightarrow> nat set" where
  "dgroups (Seq a b) = dgroups a \<union> dgroups b"
| "dgroups (Alt a b) = dgroups a \<inter> dgroups b"
| "dgroups (Plus a) = dgroups a"
| "dgroups (Group n a) = insert n (dgroups a)"
| "dgroups r = {}"

text \<open>A pattern has the groups its category reads, and they take part in every
  match: groups 2 and, if there are three, 3 for a comparison pattern, the last group
  otherwise.\<close>

definition well_grouped :: "string \<Rightarrow> regex \<Rightarrow> bool" where
  "well_grouped qt p =
     (if qt = ''comparison''
      then 2 \<le> ngroups p \<and> 2 \<in> dgroups p \<and> (ngroups p < 3 \<or> 3 \<in> dgroups p)
      else 1 \<le> ngroups p \<and> ngroups p \<in> dgroups p)"

text \<open>All patterns in priority order: category order first, then the order within
  the category.\<close>

definition flat_patterns :: "(string \<times> regex) list" where
  "flat_patterns = concat (map (\<lambda>(qt, ps). map (Pair qt) ps) query_patterns)"

text \<open>The first pattern in a list that matches somewhere in the query, with its
  category and its match.\<close>

fun first_match ::
  "string \<Rightarrow> (string \<times> regex) list \<Rightarrow> (string \<times> regex \<times> captures) option" where
  "first_match q [] = None"
| "first_match q ((qt, p) # rest) =
     (case re_search p q of None \<Rightarrow> first_match q rest | Some m \<Rightarrow> Some (qt, p, m))"

definition group_text :: "captures \<Rightarrow> nat \<Rightarrow> string" where
  "group_text m k = (case map_of m k of None \<Rightarrow> [] | Some t \<Rightarrow> t)"

text \<open>The capture rule: a comparison match gives the trimmed second group and the
  trimmed third group (the empty string if the pattern has no third group); a match of
  any other category gives the trimmed last group.\<close>

definition result_of :: "string \<times> regex \<times> captures \<Rightarrow> string \<times> string list" where
  "result_of x =
     (case x of (qt, p, m) \<Rightarrow>
        if qt = ''comparison''
        then (qt, [strip (group_text m 2),
                   if 3 \<le> ngroups p then strip (group_text m 3) else []])
        else (qt, [strip (group_text m (ngroups p))]))"

definition classify_spec :: "string \<Rightarrow> string \<times> string list" where
  "classify_spec q =
     (case first_match q flat_patterns of
        None \<Rightarrow> (''general'', [])
      | Some x \<Rightarrow> result_of x)"

section \<open>The index as a list of writes\<close>

text \<open>The values \<open>_build_concept_index\<close> computes from one topic entry.\<close>

definition topic_name :: "topic_entry \<Rightarrow> string" where
  "topic_name t = get_default [] (t_name t)"

definition alt_name :: "topic_entry \<Rightarrow> string" where
  "alt_name t = replace_underscore (topic_name t)"

definition display_key :: "topic_entry \<Rightarrow> string" where
  "display_key t = lower (get_default [] (t_display_name t))"

definition topic_object :: "topic_entry \<Rightarrow> entry" where
  "topic_object t =
     TopicEntry (get_default (topic_name t) (t_display_name t))
                (get_default [] (t_subtopics t)) (get_default [] (t_resources t))"

definition subtopic_object :: "topic_entry \<Rightarrow> string \<Rightarrow> entry" where
  "subtopic_object t s =
     SubtopicEntry (topic_name t) s
       [r \<leftarrow> get_default [] (t_resources t).
          contains (lower (get_default [] (r_title r))) (lower s)]"

text \<open>The keys under which a topic entry is registered, in order: the canonical
  name, the alternate name if it differs, the case-folded display name if it is not
  empty and differs from both.\<close>

definition name_keys :: "topic_entry \<Rightarrow> string list" where
  "name_keys t =
     [topic_name t]
     @ (if alt_name t \<noteq> topic_name t then [alt_name t] else [])
     @ (if display_key t \<noteq> [] \<and> display_key t \<noteq> topic_name t \<and> display_key t \<noteq> alt_name t
        then [display_key t] else [])"

definition subtopic_keys :: "topic_entry \<Rightarrow> string list" where
  "subtopic_keys t = map lower (get_default [] (t_subtopics t))"

text \<open>Every assignment \<open>concept_index[key] = entry\<close> that building the index
  performs, in the order of the curriculum.\<close>

definition topic_writes :: "topic_entry \<Rightarrow> (string \<times> entry) list" where
  "topic_writes t =
     map (\<lambda>k. (k, topic_object t)) (name_keys t)
     @ map (\<lambda>s. (lower s, subtopic_object t s)) (get_default [] (t_subtopics t))"

definition curriculum_writes :: "curriculum \<Rightarrow> (string \<times> entry) list" where
  "curriculum_writes cur = concat (map topic_writes (get_default [] (topics cur)))"

text \<open>The state after the three name forms of a topic are registered: one new
  object, and every name key refers to it.\<close>

definition register_names :: "concept_index \<Rightarrow> topic_entry \<Rightarrow> concept_index" where
  "register_names ci t =
     foldl (\<lambda>c k. set_key k (length (ci_objs ci)) c)
           (ci\<lparr>ci_objs := ci_objs ci @ [topic_object t]\<rparr>) (name_keys t)"

text \<open>Every reference in the dictionary points into the store.\<close>

definition wf_index :: "concept_index \<Rightarrow> bool" where
  "wf_index ci = (\<forall>k a. map_of (ci_keys ci) k = Some a \<longrightarrow> a < length (ci_objs ci))"

text \<open>The loop over the topics without the error plumbing.\<close>

fun add_topics_pure :: "concept_index \<Rightarrow> topic_entry list \<Rightarrow> concept_index" where
  "add_topics_pure ci [] = ci"
| "add_topics_pure ci (t # ts) =
     add_topics_pure (add_subtopics (topic_name t) (get_default [] (t_resources t))
            (register_names ci t) (get_default [] (t_subtopics t))) ts"

text \<open>The elements of a list in the order of their first occurrence.\<close>

definition first_occurrences :: "'a list \<Rightarrow> 'a list" where
  "first_occurrences xs = rev (remdups (rev xs))"

text \<open>The index holds what a list of writes left behind: each key resolves to
  the entry of the last write to it, and the keys stand in the order of their first
  write.\<close>

definition holds_writes :: "concept_index \<Rightarrow> (string \<times> entry) list \<Rightarrow> bool" where
  "holds_writes ci wl =
     (wf_index ci \<and> lookup_concept ci = map_of (rev wl)
      \<and> map fst (ci_keys ci) = first_occurrences (map fst wl))"

text \<open>The curriculum with every missing \<open>topics\<close>, \<open>name\<close>, \<open>subtopics\<close> and
  \<open>resources\<close> field filled in with its empty default.\<close>

definition fill_topic :: "topic_entry \<Rightarrow> topic_entry" where
  "fill_topic t =
     \<lparr>t_name = Some (get_default [] (t_name t)), t_display_name = t_display_name t,
      t_subtopics = Some (get_default [] (t_subtopics t)),
      t_resources = Some (get_default [] (t_resources t))\<rparr>"

definition with_defaults :: "curriculum \<Rightarrow> curriculum" where
  "with_defaults cur = \<lparr>topics = Some (map fill_topic (get_default [] (topics cur)))\<rparr>"

definition collision_curriculum :: curriculum where
  "collision_curriculum =
     \<lparr>topics = Some
        [\<lparr>t_name = Some ''sorting'', t_display_name = Some ''Sorting'',
          t_subtopics = Some [''bubble sort''], t_resources = Some []\<rparr>,
         \<lparr>t_name = Some ''arrays'', t_display_name = Some ''Arrays'',
          t_subtopics = Some [''Sorting''], t_resources = Some []\<rparr>]\<rparr>"

text \<open>A topic without a display name, and a topic one of whose subtopics is its own
  alternate name.\<close>

definition no_display_topic :: topic_entry where
  "no_display_topic =
     \<lparr>t_name = Some ''linked_lists'', t_display_name = None,
      t_subtopics = Some [], t_resources = Some []\<rparr>"

definition overwritten_topic :: topic_entry where
  "overwritten_topic =
     \<lparr>t_name = Some ''linked_lists'', t_display_name = Some ''Linked Lists (LL)'',
      t_subtopics = Some [''Linked Lists''], t_resources = Some []\<rparr>"

definition aliased_topic :: topic_entry where
  "aliased_topic =
     \<lparr>t_name = Some ''linked_lists'', t_display_name = Some ''Linked Lists (LL)'',
      t_subtopics = Some [''doubly linked list''], t_resources = Some []\<rparr>"

section \<open>The resolvers as the specification words them\<close>

text \<open>The resources of the indexed concepts, each tagged with the concept it was
  reached from, in the order of the concepts.\<close>

definition tagged_resources :: "concept_index \<Rightarrow> string list \<Rightarrow> tagged_resource list" where
  "tagged_resources ci concepts =
     concat (map (\<lambda>c. case lookup_concept ci c of
                         None \<Rightarrow> []
                       | Some e \<Rightarrow> map (tag_resource c) (entry_resources e)) concepts)"

text \<open>Deduplication by URL as a filter on the encounter order: a resource is kept
  when its URL is not empty and no resource before it, kept or not, has the same
  URL. The first argument lists the resources already encountered.\<close>

fun keep_first_urls ::
  "tagged_resource list \<Rightarrow> tagged_resource list \<Rightarrow> tagged_resource list" where
  "keep_first_urls before [] = []"
| "keep_first_urls before (r # rs) =
     (if url r \<noteq> [] \<and> url r \<notin> url ` set before then [r] else [])
     @ keep_first_urls (before @ [r]) rs"

definition no_url_curriculum :: curriculum where
  "no_url_curriculum =
     \<lparr>topics = Some
        [\<lparr>t_name = Some ''arrays'', t_display_name = Some ''Arrays'',
          t_subtopics = Some [],
          t_resources = Some
            [\<lparr>r_title = Some ''Arrays intro'', r_url = None, r_source = Some ''notes''\<rparr>,
             \<lparr>r_title = Some ''Arrays in C'', r_url = Some ''http://a'',
              r_source = Some ''web''\<rparr>,
             \<lparr>r_title = Some ''Arrays in depth'', r_url = Some [],
              r_source = Some ''notes''\<rparr>]\<rparr>]\<rparr>"

definition no_url_index :: concept_index where
  "no_url_index =
     \<lparr>ci_keys = [(''arrays'', 0)],
      ci_objs = [TopicEntry ''Arrays'' []
            [\<lparr>r_title = Some ''Arrays intro'', r_url = None, r_source = Some ''notes''\<rparr>,
             \<lparr>r_title = Some ''Arrays in C'', r_url = Some ''http://a'',
              r_source = Some ''web''\<rparr>,
             \<lparr>r_title = Some ''Arrays in depth'', r_url = Some [],
              r_source = Some ''notes''\<rparr>]]\<rparr>"

section \<open>The fallback extractor as the specification words it\<close>

text \<open>Pass 1: the keys that occur in the query as a substring, in index order.\<close>

definition exact_matches :: "concept_index \<Rightarrow> string \<Rightarrow> string list" where
  "exact_matches ci q = [k \<leftarrow> map fst (ci_keys ci). contains q k]"

text \<open>Some word of the key longer than 3 characters is a whole token of the
  query.\<close>

definition word_overlap :: "string \<Rightarrow> string \<Rightarrow> bool" where
  "word_overlap k q = list_ex (\<lambda>w. 3 < length w \<and> w \<in> set (split q)) (split k)"

definition extract_spec :: "concept_index \<Rightarrow> string \<Rightarrow> string list" where
  "extract_spec ci q =
     (if exact_matches ci q \<noteq> [] then exact_matches ci q
      else [k \<leftarrow> map fst (ci_keys ci). word_overlap k q])"

definition sorting_curriculum :: curriculum where
  "sorting_curriculum =
     \<lparr>topics = Some [\<lparr>t_name = Some ''sorting_algorithms'',
                       t_display_name = Some ''Sorting Algorithms'',
                       t_subtopics = Some [''quick sort''], t_resources = Some []\<rparr>]\<rparr>"

definition sorting_index :: concept_index where
  "sorting_index =
     \<lparr>ci_keys = [(''sorting_algorithms'', 0), (''sorting algorithms'', 0), (''quick sort'', 1)],
      ci_objs = [TopicEntry ''Sorting Algorithms'' [''quick sort''] [],
                 SubtopicEntry ''sorting_algorithms'' ''quick sort'' []]\<rparr>"

section \<open>Prerequisites: the loop and the specification\<close>

text \<open>The subtopics at smaller positions than the first occurrence of the display
  name in a list; none when the display name is not in the list.\<close>

definition earlier_subtopics :: "string \<Rightarrow> string list \<Rightarrow> string list" where
  "earlier_subtopics d subs = (if d \<in> set subs then takeWhile (\<lambda>s. s \<noteq> d) subs else [])"

text \<open>From the source: what one pass of the loop over the extracted concepts
  appends to \<open>prerequisite_concepts\<close>. The list it searches is the one of the
  entry that the key \<open>parent_topic\<close> resolves to in the index, whatever that
  entry is; a subtopic entry has no such list.\<close>

definition loop_prerequisites :: "concept_index \<Rightarrow> string \<Rightarrow> string list" where
  "loop_prerequisites ci c =
     (case lookup_concept ci c of
        None \<Rightarrow> []
      | Some (TopicEntry d ss rs) \<Rightarrow> []
      | Some (SubtopicEntry p d rs) \<Rightarrow>
          (case lookup_concept ci p of
             None \<Rightarrow> []
           | Some e \<Rightarrow> earlier_subtopics d (entry_subtopics e)))"

definition arrays_curriculum :: curriculum where
  "arrays_curriculum =
     \<lparr>topics = Some
        [\<lparr>t_name = Some ''arrays'', t_display_name = Some ''Arrays'',
          t_subtopics = Some [''array creation'', ''array insertion'', ''array deletion'',
                              ''array traversal''],
          t_resources = Some []\<rparr>]\<rparr>"

definition arrays_index :: concept_index where
  "arrays_index =
     \<lparr>ci_keys = [(''arrays'', 0), (''array creation'', 1), (''array insertion'', 2),
                 (''array deletion'', 3), (''array traversal'', 4)],
      ci_objs = [TopicEntry ''Arrays'' [''array creation'', ''array insertion'',
                                        ''array deletion'', ''array traversal''] [],
                 SubtopicEntry ''arrays'' ''array creation'' [],
                 SubtopicEntry ''arrays'' ''array insertion'' [],
                 SubtopicEntry ''arrays'' ''array deletion'' [],
                 SubtopicEntry ''arrays'' ''array traversal'' []]\<rparr>"

subsection \<open>The candidates in the words of the specification\<close>

text \<open>The parent topic's ordered subtopics list: the list the curriculum declares
  for the topic of that name.\<close>

definition declared_subtopics :: "curriculum \<Rightarrow> string \<Rightarrow> string list" where
  "declared_subtopics cur p =
     (case find (\<lambda>t. topic_name t = p) (get_default [] (topics cur)) of
        None \<Rightarrow> []
      | Some t \<Rightarrow> get_default [] (t_subtopics t))"

text \<open>The prerequisite candidates of one extracted concept: for a concept that
  resolves to a subtopic entry, the subtopics at smaller positions than its display
  name in the list its parent topic declares.\<close>

definition declared_candidates :: "curriculum \<Rightarrow> concept_index \<Rightarrow> string \<Rightarrow> string list" where
  "declared_candidates cur ci c =
     (case lookup_concept ci c of
        None \<Rightarrow> []
      | Some (TopicEntry d ss rs) \<Rightarrow> []
      | Some (SubtopicEntry p d rs) \<Rightarrow> earlier_subtopics d (declared_subtopics cur p))"

text \<open>The name key of the topic named \<open>p\<close> is not written again after that topic
  registered it, neither by one of its own subtopics nor by a name form or a subtopic
  of a later topic.\<close>

fun parent_key_intact :: "topic_entry list \<Rightarrow> string \<Rightarrow> bool" where
  "parent_key_intact [] p = False"
| "parent_key_intact (t # ts) p =
     (if topic_name t = p
      then p \<notin> set (subtopic_keys t) \<and> p \<notin> set (map fst (concat (map topic_writes ts)))
      else parent_key_intact ts p)"

text \<open>The parent key of every concept in the list that resolves to a subtopic entry
  is intact.\<close>

definition parents_intact :: "curriculum \<Rightarrow> concept_index \<Rightarrow> string list \<Rightarrow> bool" where
  "parents_intact cur ci cs =
     list_all (\<lambda>c. case lookup_concept ci c of
                      None \<Rightarrow> True
                    | Some (TopicEntry d ss rs) \<Rightarrow> True
                    | Some (SubtopicEntry p d rs) \<Rightarrow>
                        parent_key_intact (get_default [] (topics cur)) p) cs"

text \<open>The topic \<open>arrays\<close> followed by a topic that has the subtopic "Arrays".\<close>

definition overwritten_parent_curriculum :: curriculum where
  "overwritten_parent_curriculum =
     \<lparr>topics = Some
        [\<lparr>t_name = Some ''arrays'', t_display_name = Some ''Arrays'',
          t_subtopics = Some [''array creation'', ''array insertion'', ''array deletion'',
                              ''array traversal''],
          t_resources = Some []\<rparr>,
         \<lparr>t_name = Some ''basics'', t_display_name = Some ''Basics'',
          t_subtopics = Some [''Arrays''], t_resources = Some []\<rparr>]\<rparr>"

definition overwritten_parent_index :: concept_index where
  "overwritten_parent_index =
     \<lparr>ci_keys = [(''arrays'', 6), (''array creation'', 1), (''array insertion'', 2),
                 (''array deletion'', 3), (''array traversal'', 4), (''basics'', 5)],
      ci_objs = [TopicEntry ''Arrays'' [''array creation'', ''array insertion'',
                                        ''array deletion'', ''array traversal''] [],
                 SubtopicEntry ''arrays'' ''array creation'' [],
                 SubtopicEntry ''arrays'' ''array insertion'' [],
                 SubtopicEntry ''arrays'' ''array deletion'' [],
                 SubtopicEntry ''arrays'' ''array traversal'' [],
                 TopicEntry ''Basics'' [''Arrays''] [],
                 SubtopicEntry ''basics'' ''Arrays'' []]\<rparr>"

declare rmatch.simps(8) [simp del]

section \<open>Properties\<close>

subsection \<open>The query "what is binary search tree"\<close>

text \<open>
  Claim C1. On a curriculum with topic \<open>trees\<close> and subtopic "binary search tree",
  the query "what is binary search tree" should be classified as a definition query
  with the single extracted concept "binary search tree". The code extracts that
  concept, through the fallback extractor, but classifies the query as \<open>general\<close>:
  the pattern \<open>what is (a|an)?\s+(.+)\<close> has a literal space before the optional
  article and \<open>\s+\<close> after it, so without an article it asks for two whitespace
  characters after "is".
\<close>

theorem C1_what_is_without_article_is_general:
  "mapper_analyze_query trees_curriculum ''what is binary search tree'' =
     Inr \<lparr>original_query = ''what is binary search tree'', query_type = ''general'',
          extracted_concepts = [''binary search tree''], related_concepts = [],
          resources = []\<rparr>"
  unfolding trees_curriculum_def by code_simp

text \<open>With the article the same pattern matches and the query is a definition query.\<close>

lemma what_is_with_article_is_definition:
  "mapper_analyze_query trees_curriculum ''what is a binary search tree'' =
     Inr \<lparr>original_query = ''what is a binary search tree'', query_type = ''definition'',
          extracted_concepts = [''binary search tree''], related_concepts = [],
          resources = []\<rparr>"
  unfolding trees_curriculum_def by code_simp

subsection \<open>The classifier never fails\<close>

lemma rmatch_captures:
  "st' \<in> set (rmatch r st) \<Longrightarrow> fst ` set (snd st) \<union> dgroups r \<subseteq> fst ` set (snd st')"
proof (induction r st arbitrary: st' rule: rmatch.induct)
  case (5 a b st)
  then obtain mid where m: "mid \<in> set (rmatch a st)" "st' \<in> set (rmatch b mid)" by auto
  have a: "fst ` set (snd st) \<union> dgroups a \<subseteq> fst ` set (snd mid)"
    by (rule "5.IH"(1)[OF m(1)])
  have b: "fst ` set (snd mid) \<union> dgroups b \<subseteq> fst ` set (snd st')"
    by (rule "5.IH"(2)[OF m(1) m(2)])
  have "dgroups (Seq a b) = dgroups a \<union> dgroups b" by simp
  with a b show ?case by blast
next
  case (8 a st)
  from "8.prems" have "st' \<in> set (concat (map (\<lambda>st'. (if length (fst st') < length (fst st)
                          then rmatch (Plus a) st' else []) @ [st']) (rmatch a st)))"
    by (subst (asm) rmatch.simps(8)) simp
  then obtain mid where m: "mid \<in> set (rmatch a st)"
    and c: "st' = mid \<or> (length (fst mid) < length (fst st) \<and> st' \<in> set (rmatch (Plus a) mid))"
    by (auto split: if_splits)
  from "8.IH"(1)[OF m] have a: "fst ` set (snd st) \<union> dgroups a \<subseteq> fst ` set (snd mid)" .
  from c show ?case
  proof
    assume "st' = mid" with a show ?thesis by simp
  next
    assume h: "length (fst mid) < length (fst st) \<and> st' \<in> set (rmatch (Plus a) mid)"
    from "8.IH"(2)[OF m _ ] h have "fst ` set (snd mid) \<union> dgroups (Plus a) \<subseteq> fst ` set (snd st')" by blast
    moreover have "dgroups (Plus a) = dgroups a" by simp
    ultimately show ?thesis using a by blast
  qed
next
  case (9 n a st)
  then obtain mid where m: "mid \<in> set (rmatch a st)"
    and e: "st' = (fst mid, AList.update n (take (length (fst st) - length (fst mid)) (fst st)) (snd mid))"
    by auto
  have "fst ` set (snd st') = insert n (fst ` set (snd mid))"
    unfolding e by (simp add: dom_update)
  moreover have "dgroups (Group n a) = insert n (dgroups a)" by simp
  ultimately show ?case using "9.IH"[OF m] by blast
next
  case (1 st) then show ?case by simp
next
  case (2 c st) then show ?case by (cases "fst st") (auto split: if_splits)
next
  case (3 st) then show ?case by (cases "fst st") (auto split: if_splits)
next
  case (4 st) then show ?case by (cases "fst st") (auto split: if_splits)
next
  case (6 a b st)
  have "dgroups (Alt a b) \<subseteq> dgroups a" "dgroups (Alt a b) \<subseteq> dgroups b" by simp_all
  moreover from "6.prems" have "st' \<in> set (rmatch a st) \<or> st' \<in> set (rmatch b st)" by auto
  ultimately show ?case using "6.IH" by blast
next
  case (7 a st)
  have "dgroups (Opt a) = {}" by simp
  moreover from "7.prems" have "st' \<in> set (rmatch a st) \<or> st' = st" by auto
  ultimately show ?case using "7.IH" by blast
qed

lemma re_search_captures:
  "re_search r q = Some m \<Longrightarrow> dgroups r \<subseteq> fst ` set m"
proof (induction q)
  case Nil
  then obtain st' where "st' \<in> set (rmatch r ([], []))" "m = snd st'"
    by (auto split: list.splits)
  with rmatch_captures[of st' r "([], [])"] show ?case by auto
next
  case (Cons c cs)
  show ?case
  proof (cases "rmatch r (c # cs, [])")
    case Nil
    with Cons show ?thesis by simp
  next
    case (Cons st' rest)
    with Cons.prems have "st' \<in> set (rmatch r (c # cs, []))" "m = snd st'" by auto
    with rmatch_captures[of st' r "(c # cs, [])"] show ?thesis by auto
  qed
qed

lemma group_strip_defined:
  "re_search p q = Some m \<Longrightarrow> k \<in> dgroups p \<Longrightarrow> k \<le> ngroups p \<Longrightarrow>
   \<exists>t. map_of m k = Some t \<and> group_strip p m k = Inr (strip t)"
proof -
  assume a: "re_search p q = Some m" "k \<in> dgroups p" "k \<le> ngroups p"
  from re_search_captures[OF a(1)] a(2) have "k \<in> fst ` set m" by auto
  then obtain t where "map_of m k = Some t" by (cases "map_of m k") (auto simp: map_of_eq_None_iff)
  with a(3) show ?thesis by (auto simp: group_strip_def)
qed


lemma query_patterns_well_grouped:
  "list_all (\<lambda>(qt, ps). list_all (well_grouped qt) ps) query_patterns"
  by (simp add: query_patterns_def pat_between_def well_grouped_def lit_def ws_def any_group_def)

lemma group_strip_text:
  assumes "re_search p q = Some m" "k \<in> dgroups p" "k \<le> ngroups p"
  shows "group_strip p m k = Inr (strip (group_text m k))"
  using group_strip_defined[OF assms] by (auto simp: group_text_def)

lemma try_patterns_first_match:
  "list_all (well_grouped qt) ps \<Longrightarrow>
   try_patterns qt q ps = map_option (\<lambda>x. Inr (result_of x)) (first_match q (map (Pair qt) ps))"
proof (induction ps)
  case Nil
  then show ?case by simp
next
  case (Cons p ps)
  then have wg: "well_grouped qt p" and rest: "list_all (well_grouped qt) ps" by simp_all
  show ?case
  proof (cases "re_search p q")
    case None
    with Cons.IH[OF rest] show ?thesis by simp
  next
    case (Some m)
    show ?thesis
    proof (cases "qt = ''comparison''")
      case True
      with wg have g2: "2 \<le> ngroups p" "2 \<in> dgroups p" and g3: "ngroups p < 3 \<or> 3 \<in> dgroups p"
        by (simp_all add: well_grouped_def)
      have s2: "group_strip p m 2 = Inr (strip (group_text m 2))"
        using group_strip_text[OF Some g2(2) g2(1)] .
      show ?thesis
      proof (cases "3 \<le> ngroups p")
        case True
        with g3 have "3 \<in> dgroups p" by auto
        from group_strip_text[OF Some this True]
        have s3: "group_strip p m 3 = Inr (strip (group_text m 3))" .
        from Some \<open>qt = ''comparison''\<close> g2(1) True s2 s3 show ?thesis
          by (simp add: result_of_def)
      next
        case False
        with Some \<open>qt = ''comparison''\<close> g2(1) s2 show ?thesis
          by (simp add: result_of_def)
      qed
    next
      case False
      with wg have g: "1 \<le> ngroups p" "ngroups p \<in> dgroups p"
        by (simp_all add: well_grouped_def)
      from group_strip_text[OF Some g(2)]
      have "group_strip p m (ngroups p) = Inr (strip (group_text m (ngroups p)))" by simp
      with Some False g(1) show ?thesis by (simp add: result_of_def)
    qed
  qed
qed

lemma first_match_append:
  "first_match q (xs @ ys) =
     (case first_match q xs of None \<Rightarrow> first_match q ys | Some r \<Rightarrow> Some r)"
  by (induction xs) (auto split: option.splits)

lemma try_categories_first_match:
  "list_all (\<lambda>(qt, ps). list_all (well_grouped qt) ps) tbl \<Longrightarrow>
   try_categories q tbl =
     Inr (case first_match q (concat (map (\<lambda>(qt, ps). map (Pair qt) ps) tbl)) of
            None \<Rightarrow> (''general'', []) | Some x \<Rightarrow> result_of x)"
proof (induction tbl)
  case Nil
  then show ?case by simp
next
  case (Cons c tbl)
  obtain qt ps where c: "c = (qt, ps)" by (cases c)
  with Cons.prems have wg: "list_all (well_grouped qt) ps"
    and rest: "list_all (\<lambda>(qt, ps). list_all (well_grouped qt) ps) tbl" by simp_all
  show ?case
    using Cons.IH[OF rest] try_patterns_first_match[OF wg, of q]
    by (simp add: c first_match_append split: option.splits)
qed

lemma identify_query_type_total:
  "identify_query_type q = Inr (classify_spec q)"
  unfolding identify_query_type_def classify_spec_def flat_patterns_def
  using try_categories_first_match[OF query_patterns_well_grouped, of q]
  by simp

subsection \<open>Building the index\<close>

lemma add_topic_pure:
  "add_topic ci t =
     Inr (add_subtopics (topic_name t) (get_default [] (t_resources t))
            (register_names ci t) (get_default [] (t_subtopics t)))"
  by (simp add: add_topic_def Let_def new_obj_def alias_key_def ref_of_def set_key_def
        register_names_def name_keys_def topic_name_def alt_name_def display_key_def
        topic_object_def update_conv')

lemma add_topics_pure: "add_topics ci ts = Inr (add_topics_pure ci ts)"
  by (induction ts arbitrary: ci) (simp_all add: add_topic_pure)

lemma wf_set_key:
  "wf_index ci \<Longrightarrow> a < length (ci_objs ci) \<Longrightarrow> wf_index (set_key k a ci)"
  by (auto simp: wf_index_def set_key_def update_conv' split: if_splits)

lemma wf_new: "wf_index ci \<Longrightarrow> wf_index (ci\<lparr>ci_objs := ci_objs ci @ [e]\<rparr>)"
  by (fastforce simp: wf_index_def)

lemma lookup_new:
  "wf_index ci \<Longrightarrow> lookup_concept (ci\<lparr>ci_objs := ci_objs ci @ [e]\<rparr>) = lookup_concept ci"
proof
  fix k assume w: "wf_index ci"
  show "lookup_concept (ci\<lparr>ci_objs := ci_objs ci @ [e]\<rparr>) k = lookup_concept ci k"
  proof (cases "map_of (ci_keys ci) k")
    case None then show ?thesis by (simp add: lookup_concept_def)
  next
    case (Some a)
    with w have "a < length (ci_objs ci)" by (auto simp: wf_index_def)
    with Some show ?thesis by (simp add: lookup_concept_def nth_append)
  qed
qed

lemma lookup_set_key:
  "a < length (ci_objs ci) \<Longrightarrow>
   lookup_concept (set_key k a ci) = (lookup_concept ci)(k \<mapsto> ci_objs ci ! a)"
  by (rule ext) (simp add: lookup_concept_def set_key_def update_conv' split: option.splits)

lemma keys_update:
  "map fst (AList.update k v al) = (if k \<in> set (map fst al) then map fst al else map fst al @ [k])"
  by (induction al) auto

lemma first_occurrences_snoc:
  "first_occurrences (xs @ [k]) =
     (if k \<in> set xs then first_occurrences xs else first_occurrences xs @ [k])"
  by (simp add: first_occurrences_def)

lemma set_first_occurrences: "set (first_occurrences xs) = set xs"
  by (simp add: first_occurrences_def)

lemma distinct_first_occurrences: "distinct (first_occurrences xs)"
  by (simp add: first_occurrences_def)

lemma holds_set_key:
  assumes h: "holds_writes ci wl" and a: "a < length (ci_objs ci)"
  shows "holds_writes (set_key k a ci) (wl @ [(k, ci_objs ci ! a)])"
proof -
  from h have keys: "map fst (ci_keys ci) = first_occurrences (map fst wl)"
    by (simp add: holds_writes_def)
  then have "set (map fst (ci_keys ci)) = set (map fst wl)"
    by (simp only: set_first_occurrences)
  then have "map fst (ci_keys (set_key k a ci)) = first_occurrences (map fst (wl @ [(k, ci_objs ci ! a)]))"
    using keys by (simp add: set_key_def keys_update first_occurrences_snoc)
  moreover from h a have "wf_index (set_key k a ci)"
    by (simp add: holds_writes_def wf_set_key)
  moreover from h a have "lookup_concept (set_key k a ci) = map_of (rev (wl @ [(k, ci_objs ci ! a)]))"
    by (simp add: holds_writes_def lookup_set_key)
  ultimately show ?thesis by (simp only: holds_writes_def simp_thms)
qed

lemma set_key_objs: "ci_objs (set_key k a ci) = ci_objs ci"
  by (simp add: set_key_def)

lemma holds_fresh:
  assumes "holds_writes ci wl"
  shows "holds_writes (set_key k (length (ci_objs ci)) (ci\<lparr>ci_objs := ci_objs ci @ [e]\<rparr>))
           (wl @ [(k, e)])"
proof -
  let ?c = "ci\<lparr>ci_objs := ci_objs ci @ [e]\<rparr>"
  from assms have "holds_writes ?c wl"
    by (simp add: holds_writes_def wf_new lookup_new)
  from holds_set_key[OF this, of "length (ci_objs ci)" k] show ?thesis by simp
qed

lemma holds_register_names:
  assumes "holds_writes ci wl"
  shows "holds_writes (register_names ci t) (wl @ map (\<lambda>k. (k, topic_object t)) (name_keys t))"
proof -
  let ?a = "length (ci_objs ci)"
  let ?e = "topic_object t"
  have step: "holds_writes c w \<Longrightarrow> ?a < length (ci_objs c) \<Longrightarrow> ci_objs c ! ?a = ?e \<Longrightarrow>
     holds_writes (foldl (\<lambda>c k. set_key k ?a c) c ks) (w @ map (\<lambda>k. (k, ?e)) ks)
     " for c w ks
  proof (induction ks arbitrary: c w)
    case Nil then show ?case by simp
  next
    case (Cons k ks)
    from holds_set_key[OF Cons.prems(1,2), of k] Cons.prems(3)
    have "holds_writes (set_key k ?a c) (w @ [(k, ?e)])" by simp
    from Cons.IH[OF this] Cons.prems(2,3) show ?case by (simp add: set_key_objs)
  qed
  from assms have "holds_writes (ci\<lparr>ci_objs := ci_objs ci @ [?e]\<rparr>) wl"
    by (simp add: holds_writes_def wf_new lookup_new)
  from step[OF this] show ?thesis by (simp add: register_names_def)
qed

lemma holds_add_subtopics:
  "holds_writes ci wl \<Longrightarrow>
   holds_writes (add_subtopics n rs ci subs)
     (wl @ map (\<lambda>s. (lower s, SubtopicEntry n s
                  [r \<leftarrow> rs. contains (lower (get_default [] (r_title r))) (lower s)])) subs)"
proof (induction subs arbitrary: ci wl)
  case Nil then show ?case by simp
next
  case (Cons s subs)
  from Cons.IH[OF holds_fresh[OF Cons.prems]] show ?case
    by (simp add: new_obj_def)
qed

lemma holds_add_topics_pure:
  "holds_writes ci wl \<Longrightarrow>
   holds_writes (add_topics_pure ci ts) (wl @ concat (map topic_writes ts))"
proof (induction ts arbitrary: ci wl)
  case Nil then show ?case by simp
next
  case (Cons t ts)
  from Cons.IH[OF holds_add_subtopics[OF holds_register_names[OF Cons.prems]]]
  show ?case by (simp add: topic_writes_def subtopic_object_def)
qed

lemma holds_empty: "holds_writes empty_index []"
  by (auto simp: holds_writes_def wf_index_def empty_index_def lookup_concept_def
        first_occurrences_def)

lemma build_concept_index_writes:
  "\<exists>ci. build_concept_index cur = Inr ci \<and> holds_writes ci (curriculum_writes cur)"
  using holds_add_topics_pure[OF holds_empty]
  by (simp add: build_concept_index_def add_topics_pure curriculum_writes_def)

subsection \<open>One entry per key, the last write wins\<close>

text \<open>
  Claim C10. The index keeps one entry per key and the last write to a key wins:
  building never fails, the keys of the built index are distinct and stand in the
  order in which the curriculum first writes them (for each topic its name forms,
  then its subtopics), and every key resolves to the entry of the last write to it,
  so a subtopic whose case-folded form equals a key written earlier replaces the
  entry under that key.
\<close>

theorem C10_last_write_wins:
  "\<exists>ci. build_concept_index cur = Inr ci
      \<and> distinct (map fst (ci_keys ci))
      \<and> map fst (ci_keys ci) = first_occurrences (map fst (curriculum_writes cur))
      \<and> (\<forall>k. lookup_concept ci k = map_of (rev (curriculum_writes cur)) k)"
proof -
  from build_concept_index_writes[of cur] obtain ci where
    b: "build_concept_index cur = Inr ci" and h: "holds_writes ci (curriculum_writes cur)"
    by blast
  from h have k: "map fst (ci_keys ci) = first_occurrences (map fst (curriculum_writes cur))"
    and l: "lookup_concept ci = map_of (rev (curriculum_writes cur))"
    by (simp_all add: holds_writes_def)
  from k have "distinct (map fst (ci_keys ci))" by (simp add: distinct_first_occurrences)
  with b k l show ?thesis by simp
qed

text \<open>A collision: the second topic has the subtopic "Sorting", whose case-folded form
  is the name of the first topic. The key keeps its place and now resolves to the
  subtopic entry.\<close>

lemma collision_example:
  "build_concept_index collision_curriculum =
     Inr \<lparr>ci_keys = [(''sorting'', 3), (''bubble sort'', 1), (''arrays'', 2)],
          ci_objs = [TopicEntry ''Sorting'' [''bubble sort''] [],
                     SubtopicEntry ''sorting'' ''bubble sort'' [],
                     TopicEntry ''Arrays'' [''Sorting''] [],
                     SubtopicEntry ''arrays'' ''Sorting'' []]\<rparr>"
  unfolding collision_curriculum_def by code_simp

subsection \<open>The empty curriculum\<close>

lemma lookup_empty_index: "lookup_concept empty_index k = None"
  by (simp add: lookup_concept_def empty_index_def)

lemma related_loop_empty: "related_loop empty_index acc cs = acc"
  by (induction cs arbitrary: acc) (simp_all add: lookup_empty_index)

lemma gather_resources_empty: "gather_resources empty_index acc cs = acc"
  by (induction cs arbitrary: acc) (simp_all add: lookup_empty_index)

lemma add_topic_fill: "add_topic ci (fill_topic t) = add_topic ci t"
proof -
  have n: "topic_name (fill_topic t) = topic_name t"
    by (simp add: topic_name_def fill_topic_def get_default_def)
  have d: "display_key (fill_topic t) = display_key t"
    by (simp add: display_key_def fill_topic_def)
  have s: "get_default [] (t_subtopics (fill_topic t)) = get_default [] (t_subtopics t)"
    by (simp add: fill_topic_def get_default_def)
  have r: "get_default [] (t_resources (fill_topic t)) = get_default [] (t_resources t)"
    by (simp add: fill_topic_def get_default_def)
  have o: "topic_object (fill_topic t) = topic_object t"
    unfolding topic_object_def n s r by (simp add: fill_topic_def)
  have k: "name_keys (fill_topic t) = name_keys t"
    by (simp add: name_keys_def alt_name_def n d)
  show ?thesis
    unfolding add_topic_pure register_names_def n s r o k ..
qed

lemma add_topics_fill: "add_topics ci (map fill_topic ts) = add_topics ci ts"
  by (induction ts arbitrary: ci) (simp_all add: add_topic_fill split: sum.splits)

lemma classify_spec_no_match:
  "first_match q flat_patterns = None \<Longrightarrow> classify_spec q = (''general'', [])"
  by (simp add: classify_spec_def)

text \<open>
  Claim C3, amended. Building the index never fails, on any curriculum: a missing
  \<open>topics\<close>, \<open>name\<close>, \<open>subtopics\<close> or \<open>resources\<close> field gives the same index
  as the empty default in its place. A curriculum without topics gives the empty
  index. Every query analysed against the empty index has empty related concepts and
  empty resources; its intent and its extracted concepts are those the intent
  classifier finds in the query text alone, which are \<open>general\<close> and no concepts
  when no pattern matches the query.
\<close>

theorem C3_empty_curriculum:
  "(\<exists>ci. build_concept_index cur = Inr ci \<and> build_concept_index (with_defaults cur) = Inr ci)
   \<and> (get_default [] (topics cur) = [] \<longrightarrow> build_concept_index cur = Inr empty_index)
   \<and> analyze_query empty_index q =
        Inr \<lparr>original_query = q,
             query_type = fst (classify_spec (strip (lower q))),
             extracted_concepts = snd (classify_spec (strip (lower q))),
             related_concepts = [], resources = []\<rparr>
   \<and> (first_match (strip (lower q)) flat_patterns = None \<longrightarrow>
        analyze_query empty_index q =
          Inr \<lparr>original_query = q, query_type = ''general'', extracted_concepts = [],
               related_concepts = [], resources = []\<rparr>)"
proof -
  have total: "\<exists>ci. build_concept_index cur = Inr ci
                 \<and> build_concept_index (with_defaults cur) = Inr ci"
  proof -
    have "build_concept_index (with_defaults cur) = build_concept_index cur"
      by (simp add: build_concept_index_def with_defaults_def add_topics_fill get_default_def)
    then show ?thesis by (simp add: build_concept_index_def add_topics_pure)
  qed
  have empty: "get_default [] (topics cur) = [] \<longrightarrow> build_concept_index cur = Inr empty_index"
    by (simp add: build_concept_index_def)
  have ex: "extract_concepts_from_query empty_index c = []" for c
    by (simp add: extract_concepts_from_query_def empty_index_def)
  have rel: "find_related_concepts empty_index cs = []" for cs
    by (simp add: find_related_concepts_def related_loop_empty)
  have res: "get_relevant_resources empty_index cs = []" for cs
    by (simp add: get_relevant_resources_def gather_resources_empty)
  have an: "analyze_query empty_index q =
        Inr \<lparr>original_query = q,
             query_type = fst (classify_spec (strip (lower q))),
             extracted_concepts = snd (classify_spec (strip (lower q))),
             related_concepts = [], resources = []\<rparr>"
    by (cases "classify_spec (strip (lower q))")
       (simp add: analyze_query_def identify_query_type_total ex rel res)
  have gen: "first_match (strip (lower q)) flat_patterns = None \<longrightarrow>
        analyze_query empty_index q =
          Inr \<lparr>original_query = q, query_type = ''general'', extracted_concepts = [],
               related_concepts = [], resources = []\<rparr>"
    unfolding an by (simp add: classify_spec_no_match)
  from total empty an gen show ?thesis by blast
qed

theorem C3_empty_curriculum_witness:
  "get_default [] (topics \<lparr>topics = None\<rparr>) = []
   \<and> first_match (strip (lower ''Hello there'')) flat_patterns = None
   \<and> build_concept_index \<lparr>topics = None\<rparr> = Inr empty_index
   \<and> analyze_query empty_index ''Hello there'' =
        Inr \<lparr>original_query = ''Hello there'', query_type = ''general'',
             extracted_concepts = [], related_concepts = [], resources = []\<rparr>"
proof -
  have a: "get_default [] (topics \<lparr>topics = None\<rparr>) = []" by (simp add: get_default_def)
  have b: "first_match (strip (lower ''Hello there'')) flat_patterns = None" by code_simp
  from C3_empty_curriculum[of "\<lparr>topics = None\<rparr>" "''Hello there''"] a b show ?thesis by blast
qed

text \<open>
  The claim as stated fails: on the empty index the query "define stack" is a
  definition query with the extracted concept "stack", not a \<open>general\<close> query with
  no concepts. The classifier does not consult the index.
\<close>

theorem C3_counterexample:
  "build_concept_index \<lparr>topics = Some []\<rparr> = Inr empty_index
   \<and> analyze_query empty_index ''define stack'' =
        Inr \<lparr>original_query = ''define stack'', query_type = ''definition'',
             extracted_concepts = [''stack''], related_concepts = [], resources = []\<rparr>"
  by code_simp

subsection \<open>The name forms of a topic share one object\<close>

lemma fold_set_key_keys:
  "map_of (ci_keys (foldl (\<lambda>c k. set_key k a c) c ks)) k =
     (if k \<in> set ks then Some a else map_of (ci_keys c) k)"
  by (induction ks arbitrary: c) (auto simp: set_key_def update_conv')

lemma fold_set_key_objs: "ci_objs (foldl (\<lambda>c k. set_key k a c) c ks) = ci_objs c"
  by (induction ks arbitrary: c) (auto simp: set_key_def)

lemma register_names_keys:
  "map_of (ci_keys (register_names ci t)) k =
     (if k \<in> set (name_keys t) then Some (length (ci_objs ci)) else map_of (ci_keys ci) k)"
  by (simp add: register_names_def fold_set_key_keys)

lemma register_names_objs: "ci_objs (register_names ci t) = ci_objs ci @ [topic_object t]"
  by (simp add: register_names_def fold_set_key_objs)

lemma add_subtopics_other:
  "k \<notin> lower ` set subs \<Longrightarrow>
   map_of (ci_keys (add_subtopics n rs ci subs)) k = map_of (ci_keys ci) k"
  by (induction subs arbitrary: ci) (auto simp: new_obj_def set_key_def update_conv')

lemma add_subtopics_objs: "\<exists>ext. ci_objs (add_subtopics n rs ci subs) = ci_objs ci @ ext"
proof (induction subs arbitrary: ci)
  case Nil then show ?case by simp
next
  case (Cons s subs)
  let ?c = "set_key (lower s) (length (ci_objs ci))
              (ci\<lparr>ci_objs := ci_objs ci @
                 [SubtopicEntry n s [r \<leftarrow> rs. contains (lower (get_default [] (r_title r))) (lower s)]]\<rparr>)"
  from Cons.IH[of ?c] obtain ext where "ci_objs (add_subtopics n rs ?c subs) = ci_objs ?c @ ext" ..
  then show ?case by (simp add: new_obj_def set_key_def)
qed

lemma add_topics_pure_other:
  "k \<notin> set (map fst (concat (map topic_writes ts))) \<Longrightarrow>
   map_of (ci_keys (add_topics_pure ci ts)) k = map_of (ci_keys ci) k"
proof (induction ts arbitrary: ci)
  case Nil then show ?case by simp
next
  case (Cons t ts)
  from Cons.prems have a: "k \<notin> set (name_keys t)"
    and b: "k \<notin> lower ` set (get_default [] (t_subtopics t))"
    and c: "k \<notin> set (map fst (concat (map topic_writes ts)))"
    by (auto simp: topic_writes_def image_iff)
  show ?case
    by (simp add: Cons.IH[OF c] add_subtopics_other[OF b] register_names_keys a)
qed

lemma add_topics_pure_objs: "\<exists>ext. ci_objs (add_topics_pure ci ts) = ci_objs ci @ ext"
proof (induction ts arbitrary: ci)
  case Nil then show ?case by simp
next
  case (Cons t ts)
  let ?r = "register_names ci t"
  let ?s = "add_subtopics (topic_name t) (get_default [] (t_resources t)) ?r
              (get_default [] (t_subtopics t))"
  from add_subtopics_objs[of "topic_name t" "get_default [] (t_resources t)" ?r
         "get_default [] (t_subtopics t)"]
  obtain e1 where e1: "ci_objs ?s = ci_objs ?r @ e1" ..
  from Cons.IH[of ?s] obtain e2 where e2: "ci_objs (add_topics_pure ?s ts) = ci_objs ?s @ e2" ..
  from e1 e2 show ?case by (simp add: register_names_objs)
qed

lemma add_topics_pure_append:
  "add_topics_pure ci (xs @ ys) = add_topics_pure (add_topics_pure ci xs) ys"
  by (induction xs arbitrary: ci) simp_all

lemma shared_object_in_built_index:
  assumes untouched: "set (name_keys t) \<inter>
             (set (subtopic_keys t) \<union> set (map fst (concat (map topic_writes ts2)))) = {}"
  shows "\<exists>a. a < length (ci_objs (add_topics_pure ci (ts1 @ t # ts2)))
           \<and> ci_objs (add_topics_pure ci (ts1 @ t # ts2)) ! a = topic_object t
           \<and> (\<forall>k \<in> set (name_keys t).
                 map_of (ci_keys (add_topics_pure ci (ts1 @ t # ts2))) k = Some a)"
proof -
  let ?c1 = "add_topics_pure ci ts1"
  let ?r = "register_names ?c1 t"
  let ?s = "add_subtopics (topic_name t) (get_default [] (t_resources t)) ?r
              (get_default [] (t_subtopics t))"
  let ?f = "add_topics_pure ?s ts2"
  let ?a = "length (ci_objs ?c1)"
  have fin: "add_topics_pure ci (ts1 @ t # ts2) = ?f"
    by (simp add: add_topics_pure_append)
  from add_subtopics_objs[of "topic_name t" "get_default [] (t_resources t)" ?r
         "get_default [] (t_subtopics t)"]
  obtain e1 where e1: "ci_objs ?s = ci_objs ?r @ e1" ..
  from add_topics_pure_objs[of ?s ts2] obtain e2 where e2: "ci_objs ?f = ci_objs ?s @ e2" ..
  from e1 e2 have objs: "ci_objs ?f = ci_objs ?c1 @ [topic_object t] @ e1 @ e2"
    by (simp add: register_names_objs)
  then have a: "?a < length (ci_objs ?f)" and o: "ci_objs ?f ! ?a = topic_object t"
    by (simp_all add: nth_append)
  have k: "map_of (ci_keys ?f) k = Some ?a" if "k \<in> set (name_keys t)" for k
  proof -
    from that untouched have n1: "k \<notin> lower ` set (get_default [] (t_subtopics t))"
      and n2: "k \<notin> set (map fst (concat (map topic_writes ts2)))"
      by (auto simp: subtopic_keys_def)
    show ?thesis
      by (simp add: add_topics_pure_other[OF n2] add_subtopics_other[OF n1]
            register_names_keys that)
  qed
  from a o k show ?thesis unfolding fin by blast
qed

text \<open>
  Claim C8, amended. For every topic entry whose canonical name, alternate name and
  case-folded display name are pairwise distinct and whose case-folded display name is
  not empty, the builder registers the three as keys, in this order, referring to one
  shared topic entry object. If none of the three keys is written again afterwards, by
  a subtopic of this topic or by a later topic, then in the built index the three keys
  hold the same reference, and so resolve to the same entry with the topic's subtopics
  and resources.
\<close>

theorem C8_aliases_share_one_object:
  assumes ts: "get_default [] (topics cur) = ts1 @ t # ts2"
    and forms: "distinct [topic_name t, alt_name t, display_key t]"
    and nonempty: "display_key t \<noteq> []"
    and untouched: "set [topic_name t, alt_name t, display_key t] \<inter>
             (set (subtopic_keys t) \<union> set (map fst (concat (map topic_writes ts2)))) = {}"
  shows "name_keys t = [topic_name t, alt_name t, display_key t]
     \<and> (\<exists>ci a. build_concept_index cur = Inr ci
           \<and> map_of (ci_keys ci) (topic_name t) = Some a
           \<and> map_of (ci_keys ci) (alt_name t) = Some a
           \<and> map_of (ci_keys ci) (display_key t) = Some a
           \<and> a < length (ci_objs ci) \<and> ci_objs ci ! a = topic_object t
           \<and> lookup_concept ci (topic_name t) = Some (topic_object t)
           \<and> lookup_concept ci (alt_name t) = Some (topic_object t)
           \<and> lookup_concept ci (display_key t) = Some (topic_object t))"
proof -
  from forms nonempty have nk: "name_keys t = [topic_name t, alt_name t, display_key t]"
    by (auto simp: name_keys_def)
  let ?ci = "add_topics_pure empty_index (ts1 @ t # ts2)"
  have b: "build_concept_index cur = Inr ?ci"
    by (simp add: build_concept_index_def ts add_topics_pure)
  from untouched nk have "set (name_keys t) \<inter>
       (set (subtopic_keys t) \<union> set (map fst (concat (map topic_writes ts2)))) = {}"
    by simp
  from shared_object_in_built_index[OF this, of empty_index ts1]
  obtain a where a: "a < length (ci_objs ?ci)" and o: "ci_objs ?ci ! a = topic_object t"
    and k: "\<forall>k \<in> set (name_keys t). map_of (ci_keys ?ci) k = Some a" by blast
  from k nk have k3: "map_of (ci_keys ?ci) (topic_name t) = Some a"
    "map_of (ci_keys ?ci) (alt_name t) = Some a"
    "map_of (ci_keys ?ci) (display_key t) = Some a" by simp_all
  with a o have "lookup_concept ?ci (topic_name t) = Some (topic_object t)"
    "lookup_concept ?ci (alt_name t) = Some (topic_object t)"
    "lookup_concept ?ci (display_key t) = Some (topic_object t)"
    by (simp_all add: lookup_concept_def)
  with nk b k3 a o show ?thesis by blast
qed

theorem C8_aliases_share_one_object_witness:
  "get_default [] (topics \<lparr>topics = Some [aliased_topic]\<rparr>) = [] @ aliased_topic # []
   \<and> distinct [topic_name aliased_topic, alt_name aliased_topic, display_key aliased_topic]
   \<and> display_key aliased_topic \<noteq> []
   \<and> set [topic_name aliased_topic, alt_name aliased_topic, display_key aliased_topic] \<inter>
        (set (subtopic_keys aliased_topic) \<union> set (map fst (concat (map topic_writes [])))) = {}
   \<and> name_keys aliased_topic = [''linked_lists'', ''linked lists'', ''linked lists (ll)'']
   \<and> (\<exists>ci a. build_concept_index \<lparr>topics = Some [aliased_topic]\<rparr> = Inr ci
           \<and> map_of (ci_keys ci) ''linked_lists'' = Some a
           \<and> map_of (ci_keys ci) ''linked lists'' = Some a
           \<and> map_of (ci_keys ci) ''linked lists (ll)'' = Some a
           \<and> a < length (ci_objs ci) \<and> ci_objs ci ! a = topic_object aliased_topic)"
proof -
  have h1: "get_default [] (topics \<lparr>topics = Some [aliased_topic]\<rparr>) = [] @ aliased_topic # []"
    by (simp add: get_default_def)
  have h2: "distinct [topic_name aliased_topic, alt_name aliased_topic, display_key aliased_topic]"
    unfolding aliased_topic_def by code_simp
  have h3: "display_key aliased_topic \<noteq> []"
    unfolding aliased_topic_def by code_simp
  have h4: "set [topic_name aliased_topic, alt_name aliased_topic, display_key aliased_topic] \<inter>
        (set (subtopic_keys aliased_topic) \<union> set (map fst (concat (map topic_writes [])))) = {}"
    unfolding aliased_topic_def by code_simp
  have n: "topic_name aliased_topic = ''linked_lists''"
    "alt_name aliased_topic = ''linked lists''"
    "display_key aliased_topic = ''linked lists (ll)''"
    unfolding aliased_topic_def by code_simp+
  from C8_aliases_share_one_object[OF h1 h2 h3 h4] h1 h2 h3 h4 show ?thesis
    unfolding n by blast
qed

text \<open>
  The claim as stated fails in two ways. A topic without a display name has three
  pairwise distinct forms, the third being the empty string, which is never registered:
  the built index has two keys. And a topic one of whose subtopics case-folds to its
  alternate name has that key overwritten by the subtopic entry: the three keys are
  in the built index, but the alternate name refers to another object, a subtopic
  entry.
\<close>

theorem C8_counterexample:
  "distinct [topic_name no_display_topic, alt_name no_display_topic,
             display_key no_display_topic]
   \<and> display_key no_display_topic = []
   \<and> build_concept_index \<lparr>topics = Some [no_display_topic]\<rparr> =
        Inr \<lparr>ci_keys = [(''linked_lists'', 0), (''linked lists'', 0)],
             ci_objs = [TopicEntry ''linked_lists'' [] []]\<rparr>
   \<and> distinct [topic_name overwritten_topic, alt_name overwritten_topic,
               display_key overwritten_topic]
   \<and> build_concept_index \<lparr>topics = Some [overwritten_topic]\<rparr> =
        Inr \<lparr>ci_keys = [(''linked_lists'', 0), (''linked lists'', 1),
                        (''linked lists (ll)'', 0)],
             ci_objs = [TopicEntry ''Linked Lists (LL)'' [''Linked Lists''] [],
                        SubtopicEntry ''linked_lists'' ''Linked Lists'' []]\<rparr>"
  unfolding no_display_topic_def overwritten_topic_def by code_simp

subsection \<open>The resource resolver\<close>

lemma gather_resources_tagged:
  "gather_resources ci acc cs = acc @ tagged_resources ci cs"
  by (induction cs arbitrary: acc) (simp_all add: tagged_resources_def split: option.splits)

lemma unique_loop_keep_first:
  "seen = {u \<in> url ` set before. u \<noteq> []} \<Longrightarrow>
   unique_loop acc seen rs = acc @ keep_first_urls before rs"
proof (induction rs arbitrary: acc seen before)
  case Nil then show ?case by simp
next
  case (Cons r rs)
  show ?case
  proof (cases "url r \<noteq> [] \<and> url r \<notin> seen")
    case True
    with Cons.prems have new: "url r \<notin> url ` set before" by auto
    from True Cons.prems
    have "insert (url r) seen = {u \<in> url ` set (before @ [r]). u \<noteq> []}" by auto
    from Cons.IH[OF this] True new show ?thesis by simp
  next
    case False
    with Cons.prems have old: "\<not> (url r \<noteq> [] \<and> url r \<notin> url ` set before)" by auto
    from False Cons.prems
    have "seen = {u \<in> url ` set (before @ [r]). u \<noteq> []}" by auto
    from Cons.IH[OF this] have ih: "unique_loop acc seen rs = acc @ keep_first_urls (before @ [r]) rs" .
    from False have l: "unique_loop acc seen (r # rs) = unique_loop acc seen rs" by auto
    from old have k: "keep_first_urls before (r # rs) = keep_first_urls (before @ [r]) rs" by auto
    show ?thesis unfolding l k ih ..
  qed
qed

lemma get_relevant_resources_spec:
  "get_relevant_resources ci cs = take 10 (keep_first_urls [] (tagged_resources ci cs))"
  by (simp add: get_relevant_resources_def gather_resources_tagged
        unique_loop_keep_first[of "{}" "[]"])

lemma keep_first_urls_urls:
  "[] \<notin> url ` set (keep_first_urls before rs)
   \<and> url ` set (keep_first_urls before rs) \<inter> url ` set before = {}
   \<and> distinct (map url (keep_first_urls before rs))"
proof (induction rs arbitrary: before)
  case Nil then show ?case by simp
next
  case (Cons r rs)
  from Cons.IH[of "before @ [r]"]
  have a: "[] \<notin> url ` set (keep_first_urls (before @ [r]) rs)"
    and b: "url ` set (keep_first_urls (before @ [r]) rs) \<inter> url ` set (before @ [r]) = {}"
    and c: "distinct (map url (keep_first_urls (before @ [r]) rs))" by blast+
  from b have b1: "url r \<notin> url ` set (keep_first_urls (before @ [r]) rs)"
    and b2: "url ` set (keep_first_urls (before @ [r]) rs) \<inter> url ` set before = {}" by auto
  from a b1 b2 c show ?case by auto
qed

lemma get_relevant_resources_urls:
  "length (get_relevant_resources ci cs) \<le> 10
   \<and> [] \<notin> url ` set (get_relevant_resources ci cs)
   \<and> distinct (map url (get_relevant_resources ci cs))"
proof -
  let ?k = "keep_first_urls [] (tagged_resources ci cs)"
  have "set (take 10 ?k) \<subseteq> set ?k" by (rule set_take_subset)
  moreover have "[] \<notin> url ` set ?k" using keep_first_urls_urls[of "[]"] by blast
  ultimately have "[] \<notin> url ` set (take 10 ?k)" by blast
  moreover have "distinct (map url (take 10 ?k))"
    using keep_first_urls_urls[of "[]" "tagged_resources ci cs"]
    by (simp add: take_map[symmetric] distinct_take)
  ultimately show ?thesis by (simp add: get_relevant_resources_spec)
qed

text \<open>
  Claim C2, amended. For every concept list, the resource resolver appends each indexed
  concept's stored resources tagged with a \<open>concept\<close> field, keeps a resource
  exactly when its url is not empty and no earlier resource has the same url, so that
  every resource whose url is empty or missing is dropped, and truncates the result
  to its first 10 entries.
\<close>

theorem C2_resources_first_per_url:
  "get_relevant_resources ci concepts =
     take 10 (keep_first_urls [] (tagged_resources ci concepts))
   \<and> [] \<notin> url ` set (get_relevant_resources ci concepts)
   \<and> length (get_relevant_resources ci concepts) \<le> 10"
  using get_relevant_resources_spec[of ci concepts] get_relevant_resources_urls[of ci concepts]
  by blast

text \<open>
  The claim as stated fails: of the three resources of topic \<open>arrays\<close>, the one
  without a url and the one with the empty url are not in the result.
\<close>

theorem C2_counterexample:
  "build_concept_index no_url_curriculum = Inr no_url_index
   \<and> get_relevant_resources no_url_index [''arrays''] =
        [\<lparr>title = ''Arrays in C'', url = ''http://a'', source = ''web'',
          concept = ''arrays''\<rparr>]"
  unfolding no_url_curriculum_def no_url_index_def by code_simp

subsection \<open>Caps and disjointness\<close>

lemma analyze_query_total:
  "\<exists>an. analyze_query ci q = Inr an
      \<and> related_concepts an = find_related_concepts ci (extracted_concepts an)
      \<and> resources an = get_relevant_resources ci (extracted_concepts an)"
  by (cases "classify_spec (strip (lower q))")
     (simp add: analyze_query_def identify_query_type_total Let_def)

lemma find_related_concepts_cap:
  "length (find_related_concepts ci cs) \<le> 5 \<and> set (find_related_concepts ci cs) \<inter> set cs = {}"
proof -
  let ?f = "[c \<leftarrow> related_loop ci [] cs. c \<notin> set cs]"
  have "set (take 5 ?f) \<subseteq> set ?f" by (rule set_take_subset)
  then have "set (take 5 ?f) \<inter> set cs = {}" by auto
  then show ?thesis by (simp add: find_related_concepts_def)
qed

text \<open>
  Claim C4. For every query and every curriculum the analysis succeeds, its
  \<open>related_concepts\<close> has at most 5 elements, none of which is in
  \<open>extracted_concepts\<close>, and its \<open>resources\<close> has at most 10 entries, among which
  no two have the same non-empty url.
\<close>

theorem C4_caps:
  "\<exists>an. mapper_analyze_query cur q = Inr an
      \<and> length (related_concepts an) \<le> 5
      \<and> set (related_concepts an) \<inter> set (extracted_concepts an) = {}
      \<and> length (resources an) \<le> 10
      \<and> distinct [u \<leftarrow> map url (resources an). u \<noteq> []]"
proof -
  from build_concept_index_writes[of cur] obtain ci where b: "build_concept_index cur = Inr ci"
    by blast
  from analyze_query_total[of ci q] obtain an where a: "analyze_query ci q = Inr an"
    and r: "related_concepts an = find_related_concepts ci (extracted_concepts an)"
    and s: "resources an = get_relevant_resources ci (extracted_concepts an)" by blast
  from b a have m: "mapper_analyze_query cur q = Inr an" by (simp add: mapper_analyze_query_def)
  from get_relevant_resources_urls[of ci "extracted_concepts an"] s
  have l: "length (resources an) \<le> 10" and d: "distinct (map url (resources an))" by simp_all
  from d have "distinct [u \<leftarrow> map url (resources an). u \<noteq> []]" by (rule distinct_filter)
  with m l find_related_concepts_cap[of ci "extracted_concepts an"] r show ?thesis by auto
qed

lemma set_set_minus_list: "set (set_minus_list xs ys) = set xs - set ys"
  by (auto simp: set_minus_list_def)

lemma identify_knowledge_gaps_total:
  "\<exists>g an. identify_knowledge_gaps ci q = Inr g \<and> analyze_query ci q = Inr an
      \<and> query_analysis g = an
      \<and> set (prerequisite_concepts g) =
          set (snd (gap_loop ci ([], []) (extracted_concepts an))) - set (extracted_concepts an)
      \<and> set (knowledge_gaps g) =
          set (fst (gap_loop ci ([], []) (extracted_concepts an))) - set (extracted_concepts an)
            - set (prerequisite_concepts g)"
proof -
  from analyze_query_total[of ci q] obtain an where a: "analyze_query ci q = Inr an" by blast
  obtain gaps0 prereq0 where g: "gap_loop ci ([], []) (extracted_concepts an) = (gaps0, prereq0)"
    by (cases "gap_loop ci ([], []) (extracted_concepts an)")
  show ?thesis
    by (simp add: identify_knowledge_gaps_def a g set_set_minus_list Let_def)
qed

text \<open>
  Claim C5. For every query and every curriculum the knowledge-gap analysis succeeds,
  and the sets of its \<open>prerequisite_concepts\<close>, of its \<open>knowledge_gaps\<close> and of the
  \<open>extracted_concepts\<close> of its query analysis are pairwise disjoint.
\<close>

theorem C5_disjoint:
  "\<exists>g. mapper_identify_knowledge_gaps cur q = Inr g
      \<and> set (prerequisite_concepts g) \<inter> set (knowledge_gaps g) = {}
      \<and> set (prerequisite_concepts g) \<inter> set (extracted_concepts (query_analysis g)) = {}
      \<and> set (knowledge_gaps g) \<inter> set (extracted_concepts (query_analysis g)) = {}"
proof -
  from build_concept_index_writes[of cur] obtain ci where b: "build_concept_index cur = Inr ci"
    by blast
  from identify_knowledge_gaps_total[of ci q] obtain g an where
    i: "identify_knowledge_gaps ci q = Inr g" and qa: "query_analysis g = an"
    and p: "set (prerequisite_concepts g) =
          set (snd (gap_loop ci ([], []) (extracted_concepts an))) - set (extracted_concepts an)"
    and k: "set (knowledge_gaps g) =
          set (fst (gap_loop ci ([], []) (extracted_concepts an))) - set (extracted_concepts an)
            - set (prerequisite_concepts g)" by blast
  from b i have "mapper_identify_knowledge_gaps cur q = Inr g"
    by (simp add: mapper_identify_knowledge_gaps_def)
  moreover from p k qa have "set (prerequisite_concepts g) \<inter> set (knowledge_gaps g) = {}"
    "set (prerequisite_concepts g) \<inter> set (extracted_concepts (query_analysis g)) = {}"
    "set (knowledge_gaps g) \<inter> set (extracted_concepts (query_analysis g)) = {}" by auto
  ultimately show ?thesis by blast
qed

subsection \<open>The fallback extractor\<close>

lemma exact_pass_filter: "exact_pass q acc ks = acc @ [k \<leftarrow> ks. contains q k]"
  by (induction ks arbitrary: acc) simp_all

lemma word_loop_list_ex:
  "word_loop q wl = list_ex (\<lambda>w. 3 < length w \<and> w \<in> set (split q)) wl"
  by (induction wl) auto

lemma partial_pass_filter: "partial_pass q acc ks = acc @ [k \<leftarrow> ks. word_overlap k q]"
  by (induction ks arbitrary: acc) (simp_all add: word_overlap_def word_loop_list_ex)

lemma extract_concepts_spec: "extract_concepts_from_query ci q = extract_spec ci q"
  by (simp add: extract_concepts_from_query_def extract_spec_def exact_matches_def
        exact_pass_filter partial_pass_filter Let_def)

lemma built_keys_distinct:
  "\<exists>ci. build_concept_index cur = Inr ci \<and> distinct (map fst (ci_keys ci))"
proof -
  from build_concept_index_writes[of cur] obtain ci where
    b: "build_concept_index cur = Inr ci" and h: "holds_writes ci (curriculum_writes cur)"
    by blast
  from h have "map fst (ci_keys ci) = first_occurrences (map fst (curriculum_writes cur))"
    by (simp add: holds_writes_def)
  then have "distinct (map fst (ci_keys ci))" by (simp add: distinct_first_occurrences)
  with b show ?thesis by blast
qed

text \<open>
  Claim C7. The fallback extractor returns the keys that occur in the query as a
  substring, and only when there is none the keys of which some word longer than 3
  characters is a whole token of the query's whitespace split; checking the words of a
  key in order and stopping at the first that matches adds the key exactly when such
  a word exists. On a built index no key is in the result twice. The token
  "quicksort" matches neither word of the key "quick sort", while the token "quick"
  does.
\<close>

theorem C7_fallback_extractor:
  "extract_concepts_from_query ci q =
     (if exact_matches ci q \<noteq> [] then exact_matches ci q
      else [k \<leftarrow> map fst (ci_keys ci). word_overlap k q])
   \<and> word_loop q (split k) = word_overlap k q
   \<and> (\<exists>bi. build_concept_index cur = Inr bi \<and> distinct (extract_concepts_from_query bi q))
   \<and> build_concept_index sorting_curriculum = Inr sorting_index
   \<and> \<not> word_overlap ''quick sort'' ''explain quicksort algorithm''
   \<and> extract_concepts_from_query sorting_index ''explain quicksort algorithm'' = []
   \<and> extract_concepts_from_query sorting_index ''is quick fast'' = [''quick sort'']"
proof -
  have a: "extract_concepts_from_query ci q =
     (if exact_matches ci q \<noteq> [] then exact_matches ci q
      else [k \<leftarrow> map fst (ci_keys ci). word_overlap k q])"
    by (simp add: extract_concepts_spec extract_spec_def)
  have b: "word_loop q (split k) = word_overlap k q"
    by (simp add: word_overlap_def word_loop_list_ex)
  have c: "\<exists>bi. build_concept_index cur = Inr bi \<and> distinct (extract_concepts_from_query bi q)"
  proof -
    from built_keys_distinct[of cur] obtain bi where
      bi: "build_concept_index cur = Inr bi" and d: "distinct (map fst (ci_keys bi))" by blast
    from d have "distinct (extract_concepts_from_query bi q)"
      by (simp add: extract_concepts_spec extract_spec_def exact_matches_def)
    with bi show ?thesis by blast
  qed
  have d: "build_concept_index sorting_curriculum = Inr sorting_index"
    unfolding sorting_curriculum_def sorting_index_def by code_simp
  have e: "\<not> word_overlap ''quick sort'' ''explain quicksort algorithm''" by code_simp
  have f: "extract_concepts_from_query sorting_index ''explain quicksort algorithm'' = []"
    unfolding sorting_index_def by code_simp
  have g: "extract_concepts_from_query sorting_index ''is quick fast'' = [''quick sort'']"
    unfolding sorting_index_def by code_simp
  from a b c d e f g show ?thesis by blast
qed

subsection \<open>Prerequisites\<close>

lemma py_index_None: "(py_index subs d = None) = (d \<notin> set subs)"
  by (induction subs) auto

lemma py_index_Some:
  "py_index subs d = Some i \<Longrightarrow> map (\<lambda>j. subs ! j) [0..<i] = takeWhile (\<lambda>s. s \<noteq> d) subs"
proof (induction subs arbitrary: i)
  case Nil then show ?case by simp
next
  case (Cons y ys)
  show ?case
  proof (cases "y = d")
    case True with Cons.prems show ?thesis by simp
  next
    case False
    with Cons.prems obtain i' where i': "py_index ys d = Some i'" "i = Suc i'" by auto
    have "map (\<lambda>j. (y # ys) ! j) [0..<Suc i'] = y # map (\<lambda>j. ys ! j) [0..<i']"
      by (simp add: upt_conv_Cons map_Suc_upt[symmetric] del: upt_Suc)
    with Cons.IH[OF i'(1)] i'(2) False show ?thesis by simp
  qed
qed

lemma prerequisites_of_spec:
  "prerequisites_of ci p d =
     (case lookup_concept ci p of None \<Rightarrow> []
      | Some e \<Rightarrow> earlier_subtopics d (entry_subtopics e))"
proof (cases "lookup_concept ci p")
  case None then show ?thesis by (simp add: prerequisites_of_def)
next
  case (Some e)
  show ?thesis
  proof (cases "py_index (entry_subtopics e) d")
    case None
    with Some py_index_None[of "entry_subtopics e" d] show ?thesis
      by (simp add: prerequisites_of_def earlier_subtopics_def)
  next
    case (Some i)
    with py_index_None[of "entry_subtopics e" d] have "d \<in> set (entry_subtopics e)" by auto
    with py_index_Some[OF Some] Some \<open>lookup_concept ci p = Some e\<close> show ?thesis
      by (simp add: prerequisites_of_def earlier_subtopics_def)
  qed
qed

lemma gap_loop_prerequisites:
  "snd (gap_loop ci acc cs) = snd acc @ concat (map (loop_prerequisites ci) cs)"
proof (induction cs arbitrary: acc)
  case Nil then show ?case by simp
next
  case (Cons c cs)
  show ?case
  proof (cases "lookup_concept ci c")
    case None with Cons.IH show ?thesis by (simp add: loop_prerequisites_def)
  next
    case (Some e)
    then show ?thesis using Cons.IH
      by (cases e) (simp_all add: loop_prerequisites_def prerequisites_of_spec)
  qed
qed

lemma map_of_constant:
  "map_of (map (\<lambda>k. (k, v)) ks) k = (if k \<in> set ks then Some v else None)"
  by (induction ks) auto

lemma map_of_append_right:
  "k \<notin> fst ` set xs \<Longrightarrow> map_of (xs @ ys) k = map_of ys k"
  by (induction xs) auto

lemma map_of_append_left:
  "map_of xs k = Some v \<Longrightarrow> map_of (xs @ ys) k = Some v"
  by (induction xs) auto

lemma topic_name_registered: "topic_name t \<in> set (name_keys t)"
  by (simp add: name_keys_def)

lemma topic_writes_own_name:
  assumes "topic_name t \<notin> set (subtopic_keys t)"
  shows "map_of (rev (topic_writes t)) (topic_name t) = Some (topic_object t)"
proof -
  let ?subs = "map (\<lambda>s. (lower s, subtopic_object t s)) (get_default [] (t_subtopics t))"
  let ?names = "map (\<lambda>k. (k, topic_object t)) (name_keys t)"
  from assms have "topic_name t \<notin> fst ` set (rev ?subs)"
    by (auto simp: subtopic_keys_def image_iff)
  then have "map_of (rev ?subs @ rev ?names) (topic_name t) = map_of (rev ?names) (topic_name t)"
    by (rule map_of_append_right)
  moreover have "map_of (rev ?names) (topic_name t) = Some (topic_object t)"
    using map_of_constant[of "topic_object t" "rev (name_keys t)" "topic_name t"]
    by (simp add: rev_map topic_name_registered)
  ultimately show ?thesis by (simp add: topic_writes_def)
qed

lemma intact_parent_resolves:
  "parent_key_intact ts p \<Longrightarrow>
   \<exists>t. find (\<lambda>t. topic_name t = p) ts = Some t
      \<and> map_of (rev (concat (map topic_writes ts))) p = Some (topic_object t)"
proof (induction ts)
  case Nil then show ?case by simp
next
  case (Cons t ts)
  let ?W = "concat (map topic_writes ts)"
  show ?case
  proof (cases "topic_name t = p")
    case True
    with Cons.prems have s: "topic_name t \<notin> set (subtopic_keys t)"
      and w: "p \<notin> fst ` set (rev ?W)" by simp_all
    from w have "map_of (rev ?W @ rev (topic_writes t)) p = map_of (rev (topic_writes t)) p"
      by (rule map_of_append_right)
    with topic_writes_own_name[OF s] True show ?thesis by simp
  next
    case False
    with Cons.prems have "parent_key_intact ts p" by simp
    from Cons.IH[OF this] obtain t' where f: "find (\<lambda>t. topic_name t = p) ts = Some t'"
      and m: "map_of (rev ?W) p = Some (topic_object t')" by blast
    from map_of_append_left[OF m, of "rev (topic_writes t)"] f False show ?thesis by simp
  qed
qed

lemma intact_candidates:
  assumes h: "holds_writes ci (curriculum_writes cur)"
    and c: "lookup_concept ci c = Some (SubtopicEntry p d rs)"
    and i: "parent_key_intact (get_default [] (topics cur)) p"
  shows "loop_prerequisites ci c = declared_candidates cur ci c"
proof -
  from intact_parent_resolves[OF i] obtain t where
    f: "find (\<lambda>t. topic_name t = p) (get_default [] (topics cur)) = Some t"
    and m: "map_of (rev (curriculum_writes cur)) p = Some (topic_object t)"
    by (auto simp: curriculum_writes_def)
  from h m have "lookup_concept ci p = Some (topic_object t)" by (simp add: holds_writes_def)
  with c f show ?thesis
    by (simp add: loop_prerequisites_def declared_candidates_def declared_subtopics_def
          topic_object_def)
qed

lemma intact_candidates_all:
  assumes h: "holds_writes ci (curriculum_writes cur)"
  shows "parents_intact cur ci cs \<Longrightarrow>
         map (loop_prerequisites ci) cs = map (declared_candidates cur ci) cs"
proof (induction cs)
  case Nil then show ?case by simp
next
  case (Cons c cs)
  from Cons.prems have rest: "parents_intact cur ci cs" by (simp add: parents_intact_def)
  have "loop_prerequisites ci c = declared_candidates cur ci c"
  proof (cases "lookup_concept ci c")
    case None then show ?thesis
      by (simp add: loop_prerequisites_def declared_candidates_def)
  next
    case (Some e)
    show ?thesis
    proof (cases e)
      case (TopicEntry d ss rs)
      with Some show ?thesis by (simp add: loop_prerequisites_def declared_candidates_def)
    next
      case (SubtopicEntry p d rs)
      with Some Cons.prems have "parent_key_intact (get_default [] (topics cur)) p"
        by (simp add: parents_intact_def)
      with Some SubtopicEntry show ?thesis using intact_candidates[OF h] by simp
    qed
  qed
  with Cons.IH[OF rest] show ?case by simp
qed


text \<open>
  Claim C9, amended. The knowledge-gap analysis succeeds. If, for every extracted
  concept that resolves to a subtopic entry, the name key of its parent topic is not
  written again after the parent topic registered it (neither by a subtopic of the
  parent nor by a name form or a subtopic of a later topic), then the prerequisite
  concepts are, as a set, the prerequisite candidates of the extracted concepts
  without the extracted concepts themselves, where the candidates of a concept that
  resolves to a subtopic entry are the subtopics at smaller positions than its display
  name in the ordered subtopics list that its parent topic declares, and none when the
  display name is not in that list. In particular, in every such curriculum whose
  topic \<open>arrays\<close> declares the subtopics "array creation", "array insertion",
  "array deletion", "array traversal", a query whose extracted concepts are
  "array deletion", resolving to the subtopic entry of \<open>arrays\<close> with that display
  name, gets the prerequisites "array creation" and "array insertion", and not
  "array traversal".
\<close>

theorem C9_prerequisites:
  "\<exists>ci g an. build_concept_index cur = Inr ci
      \<and> mapper_identify_knowledge_gaps cur q = Inr g
      \<and> analyze_query ci q = Inr an \<and> query_analysis g = an
      \<and> (parents_intact cur ci (extracted_concepts an) \<longrightarrow>
            set (prerequisite_concepts g) =
              set (concat (map (declared_candidates cur ci) (extracted_concepts an)))
                - set (extracted_concepts an))
      \<and> (parents_intact cur ci (extracted_concepts an)
          \<and> declared_subtopics cur ''arrays'' =
               [''array creation'', ''array insertion'', ''array deletion'', ''array traversal'']
          \<and> extracted_concepts an = [''array deletion'']
          \<and> lookup_concept ci ''array deletion'' =
               Some (SubtopicEntry ''arrays'' ''array deletion'' rs)
          \<longrightarrow> set (prerequisite_concepts g) = {''array creation'', ''array insertion''}
              \<and> ''array traversal'' \<notin> set (prerequisite_concepts g))"
proof -
  from build_concept_index_writes[of cur] obtain ci where
    b: "build_concept_index cur = Inr ci" and h: "holds_writes ci (curriculum_writes cur)"
    by blast
  from identify_knowledge_gaps_total[of ci q] obtain g an where
    i: "identify_knowledge_gaps ci q = Inr g" and a: "analyze_query ci q = Inr an"
    and qa: "query_analysis g = an"
    and p: "set (prerequisite_concepts g) =
          set (snd (gap_loop ci ([], []) (extracted_concepts an))) - set (extracted_concepts an)"
    by blast
  from b i have m: "mapper_identify_knowledge_gaps cur q = Inr g"
    by (simp add: mapper_identify_knowledge_gaps_def)
  have general: "set (prerequisite_concepts g) =
              set (concat (map (declared_candidates cur ci) (extracted_concepts an)))
                - set (extracted_concepts an)"
    if "parents_intact cur ci (extracted_concepts an)"
  proof -
    from p have "set (prerequisite_concepts g) =
            set (concat (map (loop_prerequisites ci) (extracted_concepts an)))
              - set (extracted_concepts an)"
      by (simp only: gap_loop_prerequisites snd_conv append_Nil)
    with intact_candidates_all[OF h that] show ?thesis by simp
  qed
  have example: "set (prerequisite_concepts g) = {''array creation'', ''array insertion''}
              \<and> ''array traversal'' \<notin> set (prerequisite_concepts g)"
    if "parents_intact cur ci (extracted_concepts an)"
      and d: "declared_subtopics cur ''arrays'' =
               [''array creation'', ''array insertion'', ''array deletion'', ''array traversal'']"
      and e: "extracted_concepts an = [''array deletion'']"
      and l: "lookup_concept ci ''array deletion'' =
               Some (SubtopicEntry ''arrays'' ''array deletion'' rs)"
  proof -
    from l d have "declared_candidates cur ci ''array deletion'' =
        [''array creation'', ''array insertion'']"
      by (simp add: declared_candidates_def earlier_subtopics_def)
    with general[OF that(1)] e
    have "set (prerequisite_concepts g) = {''array creation'', ''array insertion''}" by simp
    then show ?thesis by simp
  qed
  have g': "parents_intact cur ci (extracted_concepts an) \<longrightarrow>
            set (prerequisite_concepts g) =
              set (concat (map (declared_candidates cur ci) (extracted_concepts an)))
                - set (extracted_concepts an)"
    using general by (rule impI)
  have e': "parents_intact cur ci (extracted_concepts an)
          \<and> declared_subtopics cur ''arrays'' =
               [''array creation'', ''array insertion'', ''array deletion'', ''array traversal'']
          \<and> extracted_concepts an = [''array deletion'']
          \<and> lookup_concept ci ''array deletion'' =
               Some (SubtopicEntry ''arrays'' ''array deletion'' rs)
          \<longrightarrow> set (prerequisite_concepts g) = {''array creation'', ''array insertion''}
              \<and> ''array traversal'' \<notin> set (prerequisite_concepts g)"
  proof (rule impI, elim conjE)
    assume "parents_intact cur ci (extracted_concepts an)"
      "declared_subtopics cur ''arrays'' =
               [''array creation'', ''array insertion'', ''array deletion'', ''array traversal'']"
      "extracted_concepts an = [''array deletion'']"
      "lookup_concept ci ''array deletion'' =
               Some (SubtopicEntry ''arrays'' ''array deletion'' rs)"
    then show "set (prerequisite_concepts g) = {''array creation'', ''array insertion''}
              \<and> ''array traversal'' \<notin> set (prerequisite_concepts g)"
      by (rule example)
  qed
  show ?thesis
    using b m a qa g' e'
    apply -
    apply (rule exI[of _ ci], rule exI[of _ g], rule exI[of _ an])
    apply (intro conjI)
    apply assumption+
    done
qed

theorem C9_prerequisites_witness:
  "parents_intact arrays_curriculum arrays_index [''array deletion'']
   \<and> declared_subtopics arrays_curriculum ''arrays'' =
        [''array creation'', ''array insertion'', ''array deletion'', ''array traversal'']
   \<and> lookup_concept arrays_index ''array deletion'' =
        Some (SubtopicEntry ''arrays'' ''array deletion'' [])
   \<and> build_concept_index arrays_curriculum = Inr arrays_index
   \<and> analyze_query arrays_index ''array deletion'' =
        Inr \<lparr>original_query = ''array deletion'', query_type = ''general'',
             extracted_concepts = [''array deletion''],
             related_concepts = [''array creation'', ''array insertion'', ''array traversal''],
             resources = []\<rparr>
   \<and> (\<exists>g. mapper_identify_knowledge_gaps arrays_curriculum ''array deletion'' = Inr g
          \<and> set (prerequisite_concepts g) = {''array creation'', ''array insertion''}
          \<and> ''array traversal'' \<notin> set (prerequisite_concepts g))"
proof -
  let ?an = "\<lparr>original_query = ''array deletion'', query_type = ''general'',
          extracted_concepts = [''array deletion''],
          related_concepts = [''array creation'', ''array insertion'', ''array traversal''],
          resources = []\<rparr>"
  have pi: "parents_intact arrays_curriculum arrays_index [''array deletion'']"
    unfolding arrays_curriculum_def arrays_index_def by code_simp
  have ds: "declared_subtopics arrays_curriculum ''arrays'' =
        [''array creation'', ''array insertion'', ''array deletion'', ''array traversal'']"
    unfolding arrays_curriculum_def by code_simp
  have lk: "lookup_concept arrays_index ''array deletion'' =
        Some (SubtopicEntry ''arrays'' ''array deletion'' [])"
    unfolding arrays_index_def by code_simp
  have bt: "build_concept_index arrays_curriculum = Inr arrays_index"
    unfolding arrays_curriculum_def arrays_index_def by code_simp
  have aq: "analyze_query arrays_index ''array deletion'' = Inr ?an"
    unfolding arrays_index_def by code_simp
  have goal: "\<exists>g. mapper_identify_knowledge_gaps arrays_curriculum ''array deletion'' = Inr g
          \<and> set (prerequisite_concepts g) = {''array creation'', ''array insertion''}
          \<and> ''array traversal'' \<notin> set (prerequisite_concepts g)"
    using C9_prerequisites[of arrays_curriculum "''array deletion''" "[]"]
  proof (elim exE conjE)
    fix ci g an
    assume b: "build_concept_index arrays_curriculum = Inr ci"
      and m: "mapper_identify_knowledge_gaps arrays_curriculum ''array deletion'' = Inr g"
      and a: "analyze_query ci ''array deletion'' = Inr an"
      and ex: "parents_intact arrays_curriculum ci (extracted_concepts an)
          \<and> declared_subtopics arrays_curriculum ''arrays'' =
               [''array creation'', ''array insertion'', ''array deletion'', ''array traversal'']
          \<and> extracted_concepts an = [''array deletion'']
          \<and> lookup_concept ci ''array deletion'' =
               Some (SubtopicEntry ''arrays'' ''array deletion'' [])
          \<longrightarrow> set (prerequisite_concepts g) = {''array creation'', ''array insertion''}
              \<and> ''array traversal'' \<notin> set (prerequisite_concepts g)"
    from b bt have ci: "ci = arrays_index" by (simp only: sum.inject)
    from a aq have an: "an = ?an" unfolding ci by (simp only: sum.inject)
    have e: "extracted_concepts an = [''array deletion'']" unfolding an by simp
    from pi have pi': "parents_intact arrays_curriculum ci (extracted_concepts an)"
      unfolding ci e .
    from lk have lk': "lookup_concept ci ''array deletion'' =
               Some (SubtopicEntry ''arrays'' ''array deletion'' [])" unfolding ci .
    from ex pi' ds e lk'
    have "set (prerequisite_concepts g) = {''array creation'', ''array insertion''}
              \<and> ''array traversal'' \<notin> set (prerequisite_concepts g)"
      by (intro mp[OF ex] conjI)
    with m show ?thesis by (intro exI[of _ g] conjI) (assumption | erule conjunct1 | erule conjunct2)+
  qed
  show ?thesis
    using pi ds lk bt aq goal
    apply -
    apply (intro conjI)
    apply assumption+
    done
qed

text \<open>
  The claim as stated fails when the parent key is overwritten. Here a second topic has
  the subtopic "Arrays", so the key "arrays" resolves to that subtopic entry, which
  has no subtopics list: the query "array deletion" still resolves to the subtopic
  entry of \<open>arrays\<close>, but gets no prerequisites.
\<close>

theorem C9_counterexample:
  "build_concept_index overwritten_parent_curriculum = Inr overwritten_parent_index
   \<and> mapper_identify_knowledge_gaps overwritten_parent_curriculum ''array deletion'' =
        Inr \<lparr>query_analysis =
               \<lparr>original_query = ''array deletion'', query_type = ''general'',
                extracted_concepts = [''array deletion''], related_concepts = [],
                resources = []\<rparr>,
             prerequisite_concepts = [],
             knowledge_gaps = [''array searching'', ''array sorting'',
                               ''multidimensional arrays''],
             prerequisite_resources = [], gap_resources = []\<rparr>"
  unfolding overwritten_parent_curriculum_def overwritten_parent_index_def by code_simp

subsection \<open>The intent classifier\<close>

text \<open>
  Claim C6, amended. The intent classifier tries the five categories in the order
  definition, comparison, implementation, complexity, application and each category's
  patterns in order; the first pattern that matches anywhere in the query ends the
  search. On a comparison match it returns the trimmed text of the second group and,
  if the pattern has a third group, the trimmed text of the third group, otherwise the
  empty string, as a two-element list; on a match of any other category it returns
  the trimmed text of the last group as a one-element list; if no pattern matches it
  returns \<open>general\<close> and the empty list. It never fails.
\<close>

theorem C6_classifier:
  "map fst query_patterns =
     [''definition'', ''comparison'', ''implementation'', ''complexity'', ''application'']
   \<and> flat_patterns = concat (map (\<lambda>(qt, ps). map (Pair qt) ps) query_patterns)
   \<and> identify_query_type q =
       Inr (case first_match q flat_patterns of
              None \<Rightarrow> (''general'', [])
            | Some (qt, p, m) \<Rightarrow>
                if qt = ''comparison''
                then (qt, [strip (group_text m 2),
                           if 3 \<le> ngroups p then strip (group_text m 3) else []])
                else (qt, [strip (group_text m (ngroups p))]))"
proof -
  have a: "map fst query_patterns =
     [''definition'', ''comparison'', ''implementation'', ''complexity'', ''application'']"
    by (simp add: query_patterns_def)
  have b: "identify_query_type q =
       Inr (case first_match q flat_patterns of
              None \<Rightarrow> (''general'', [])
            | Some (qt, p, m) \<Rightarrow>
                if qt = ''comparison''
                then (qt, [strip (group_text m 2),
                           if 3 \<le> ngroups p then strip (group_text m 3) else []])
                else (qt, [strip (group_text m (ngroups p))]))"
    by (simp add: identify_query_type_total classify_spec_def result_of_def
          split: option.splits)
  from a b show ?thesis by (simp add: flat_patterns_def)
qed

text \<open>
  The claim as stated fails for the comparison groups, which are trimmed as well: in
  "compare between a  and b", with two spaces after "a", the first pattern that
  matches is the first comparison pattern, its second group is "a" followed by a
  space, and the classifier returns "a".
\<close>

theorem C6_counterexample:
  "first_match ''compare between a  and b'' flat_patterns =
     Some (''comparison'', pat_between, [(1, ''compare''), (2, ''a ''), (3, ''b'')])
   \<and> identify_query_type ''compare between a  and b'' = Inr (''comparison'', [''a'', ''b''])"
  by code_simp

end
